theory Spec2Isabelle
  imports
    Main
    "HOL-Library.Char_ord"
    "HOL-Library.List_Lexorder"
    "HOL-Library.Product_Lexorder"
begin

section \<open>Billboard chart scraper and track aggregation (1a\_data\_billboard.ipynb)\<close>

text \<open>
  The notebook has three functions (\<^verbatim>\<open>generate_dates\<close>, \<^verbatim>\<open>scrape_week\<close>,
  \<^verbatim>\<open>scrape_billboard\<close>) and a handful of pandas cells that flatten and group the
  scraped weeks. Python exceptions are values of \<open>error\<close>; a function that may raise
  returns \<open>error + 'a\<close> with \<open>Inl\<close> for the exception. Python's \<^verbatim>\<open>str\<close> is modelled
  by \<open>string\<close>, one \<open>char\<close> per code point (code points below 256).
\<close>

datatype error = ValueError | OverflowError | TypeError | KeyError | FetchError

subsection \<open>The calendar of Python's datetime\<close>

text \<open>
  \<^verbatim>\<open>datetime\<close> keeps year, month and day; every value the notebook builds has time
  00:00:00, so the time of day is left out. The helpers follow CPython's
  \<^verbatim>\<open>Lib/datetime.py\<close>.
\<close>

record date =
  year :: int
  month :: int
  day :: int

definition MINYEAR :: int where "MINYEAR = 1"
definition MAXYEAR :: int where "MAXYEAR = 9999"
definition MAXORDINAL :: int where "MAXORDINAL = 3652059"

definition DAYS_IN_MONTH :: "int list" where
  "DAYS_IN_MONTH = [-1, 31, 28, 31, 30, 31, 30, 31, 31, 30, 31, 30, 31]"

definition DAYS_BEFORE_MONTH :: "int list" where
  "DAYS_BEFORE_MONTH = [-1, 0, 31, 59, 90, 120, 151, 181, 212, 243, 273, 304, 334]"

definition is_leap :: "int \<Rightarrow> bool" where
  "is_leap y = (y mod 4 = 0 \<and> (y mod 100 \<noteq> 0 \<or> y mod 400 = 0))"

definition days_before_year :: "int \<Rightarrow> int" where
  "days_before_year y = (y - 1) * 365 + (y - 1) div 4 - (y - 1) div 100 + (y - 1) div 400"

definition days_in_month :: "int \<Rightarrow> int \<Rightarrow> int" where
  "days_in_month y m = (if m = 2 \<and> is_leap y then 29 else DAYS_IN_MONTH ! nat m)"

definition days_before_month :: "int \<Rightarrow> int \<Rightarrow> int" where
  "days_before_month y m = DAYS_BEFORE_MONTH ! nat m + (if m > 2 \<and> is_leap y then 1 else 0)"

definition ymd2ord :: "int \<Rightarrow> int \<Rightarrow> int \<Rightarrow> int" where
  "ymd2ord y m d = days_before_year y + days_before_month y m + d"

definition toordinal :: "date \<Rightarrow> int" where
  "toordinal dt = ymd2ord (year dt) (month dt) (day dt)"

text \<open>\<^verbatim>\<open>_check_date_fields\<close>: the constructor raises ValueError outside these bounds.\<close>

definition check_date_fields :: "int \<Rightarrow> int \<Rightarrow> int \<Rightarrow> bool" where
  "check_date_fields y m d =
     (MINYEAR \<le> y \<and> y \<le> MAXYEAR \<and> 1 \<le> m \<and> m \<le> 12 \<and> 1 \<le> d \<and> d \<le> days_in_month y m)"

definition valid_date :: "date \<Rightarrow> bool" where
  "valid_date dt = check_date_fields (year dt) (month dt) (day dt)"

text \<open>\<^verbatim>\<open>_ord2ymd\<close>, with its constants \<^verbatim>\<open>_DI400Y = 146097\<close>, \<^verbatim>\<open>_DI100Y = 36524\<close>,
  \<^verbatim>\<open>_DI4Y = 1461\<close>. Its last part, which finds the month and the day from the
  day of the year, is \<open>month_and_day\<close>; \<^verbatim>\<open>(n + 50) >> 5\<close> is a division by 32.\<close>

definition month_and_day :: "bool \<Rightarrow> int \<Rightarrow> int \<times> int" where
  "month_and_day leapyear n =
     (let m = (n + 50) div 32;
          preceding = DAYS_BEFORE_MONTH ! nat m + (if m > 2 \<and> leapyear then 1 else 0)
      in if preceding > n
         then let m = m - 1;
                  preceding = preceding
                     - (DAYS_IN_MONTH ! nat m + (if m = 2 \<and> leapyear then 1 else 0))
              in (m, n - preceding + 1)
         else (m, n - preceding + 1))"

definition ord2ymd :: "int \<Rightarrow> date" where
  "ord2ymd n0 =
     (let n = n0 - 1;
          n400 = n div 146097; n = n mod 146097;
          y = n400 * 400 + 1;
          n100 = n div 36524; n = n mod 36524;
          n4 = n div 1461; n = n mod 1461;
          n1 = n div 365; n = n mod 365;
          y = y + n100 * 100 + n4 * 4 + n1
      in if n1 = 4 \<or> n100 = 4 then \<lparr>year = y - 1, month = 12, day = 31\<rparr>
         else
           let leapyear = (n1 = 3 \<and> (n4 \<noteq> 24 \<or> n100 = 3));
               (m, d) = month_and_day leapyear n
           in \<lparr>year = y, month = m, day = d\<rparr>)"

definition fromordinal :: "int \<Rightarrow> date" where
  "fromordinal n = ord2ymd n"

text \<open>\<^verbatim>\<open>week - interval\<close> with \<^verbatim>\<open>interval = timedelta(days = 7)\<close>: datetime's
  \<^verbatim>\<open>__add__\<close> raises OverflowError when the day number leaves \<open>1 .. MAXORDINAL\<close>.\<close>

definition sub_days :: "date \<Rightarrow> int \<Rightarrow> error + date" where
  "sub_days dt k =
     (let n = toordinal dt - k
      in if 0 < n \<and> n \<le> MAXORDINAL then Inr (fromordinal n) else Inl OverflowError)"

text \<open>\<^verbatim>\<open>(a - b).days\<close> for two datetimes at midnight.\<close>

definition days_between :: "date \<Rightarrow> date \<Rightarrow> int" where
  "days_between a b = toordinal a - toordinal b"

subsection \<open>strptime and strftime for the format \<^verbatim>\<open>%Y-%m-%d\<close>\<close>

definition isdigit :: "char \<Rightarrow> bool" where
  "isdigit c = (48 \<le> (of_char c :: nat) \<and> (of_char c :: nat) \<le> 57)"

definition digit_val :: "char \<Rightarrow> int" where
  "digit_val c = of_char c - 48"

definition between :: "char \<Rightarrow> char \<Rightarrow> char \<Rightarrow> bool" where
  "between lo hi c = ((of_char lo :: nat) \<le> of_char c \<and> (of_char c :: nat) \<le> of_char hi)"

text \<open>
  \<^verbatim>\<open>_strptime\<close> turns the format into the regular expression
  \<^verbatim>\<open>(?P<Y>\d\d\d\d)-(?P<m>1[0-2]|0[1-9]|[1-9])-(?P<d>3[0-1]|[1-2]\d|0[1-9]|[1-9]| [1-9])\<close>
  and matches it at the start of the string. Each directive is a function from the
  remaining input to the list of its matches (value, rest), in the order in which the
  backtracking matcher tries the alternatives.
\<close>

definition re_Y :: "string \<Rightarrow> (int \<times> string) list" where
  "re_Y s =
     (case s of
        a # b # c # d # r \<Rightarrow>
          (if isdigit a \<and> isdigit b \<and> isdigit c \<and> isdigit d
           then [(1000 * digit_val a + 100 * digit_val b + 10 * digit_val c + digit_val d, r)]
           else [])
      | _ \<Rightarrow> [])"

definition re_m :: "string \<Rightarrow> (int \<times> string) list" where
  "re_m s =
     (case s of
        [] \<Rightarrow> []
      | a # r \<Rightarrow>
          (case r of
             [] \<Rightarrow> []
           | b # r' \<Rightarrow>
               (if a = CHR ''1'' \<and> between CHR ''0'' CHR ''2'' b
                then [(10 + digit_val b, r')] else []) @
               (if a = CHR ''0'' \<and> between CHR ''1'' CHR ''9'' b
                then [(digit_val b, r')] else [])) @
          (if between CHR ''1'' CHR ''9'' a then [(digit_val a, r)] else []))"

definition re_d :: "string \<Rightarrow> (int \<times> string) list" where
  "re_d s =
     (case s of
        [] \<Rightarrow> []
      | a # r \<Rightarrow>
          (case r of
             [] \<Rightarrow> []
           | b # r' \<Rightarrow>
               (if a = CHR ''3'' \<and> between CHR ''0'' CHR ''1'' b
                then [(30 + digit_val b, r')] else []) @
               (if between CHR ''1'' CHR ''2'' a \<and> isdigit b
                then [(10 * digit_val a + digit_val b, r')] else []) @
               (if a = CHR ''0'' \<and> between CHR ''1'' CHR ''9'' b
                then [(digit_val b, r')] else [])) @
          (if between CHR ''1'' CHR ''9'' a then [(digit_val a, r)] else []) @
          (case r of
             [] \<Rightarrow> []
           | b # r' \<Rightarrow>
               (if a = CHR '' '' \<and> between CHR ''1'' CHR ''9'' b
                then [(digit_val b, r')] else [])))"

definition lit :: "char \<Rightarrow> string \<Rightarrow> string list" where
  "lit c s = (case s of [] \<Rightarrow> [] | a # r \<Rightarrow> (if a = c then [r] else []))"

text \<open>All matches of the whole expression, first alternative first; \<^verbatim>\<open>re.match\<close>
  returns the first one.\<close>

definition format_regex_matches :: "string \<Rightarrow> ((int \<times> int \<times> int) \<times> string) list" where
  "format_regex_matches s =
     concat (map (\<lambda>(y, r1).
       concat (map (\<lambda>r2.
         concat (map (\<lambda>(m, r3).
           concat (map (\<lambda>r4.
             map (\<lambda>(d, r5). ((y, m, d), r5)) (re_d r4))
           (lit CHR ''-'' r3)))
         (re_m r2)))
       (lit CHR ''-'' r1)))
     (re_Y s))"

definition strptime :: "string \<Rightarrow> error + date" where
  "strptime data_string =
     (case format_regex_matches data_string of
        [] \<Rightarrow> Inl ValueError
      | ((y, m, d), rest) # _ \<Rightarrow>
          if rest \<noteq> [] then Inl ValueError
          else if check_date_fields y m d then Inr \<lparr>year = y, month = m, day = d\<rparr>
          else Inl ValueError)"

text \<open>
  \<^verbatim>\<open>strftime('%Y-%m-%d')\<close>: CPython hands the format to the C library. There \<^verbatim>\<open>%m\<close> and
  \<^verbatim>\<open>%d\<close> are two digits, zero-filled, and \<^verbatim>\<open>%Y\<close> is the year as a plain decimal number:
  glibc does not fill it, so a year below 1000 has fewer than four digits
  (\<^verbatim>\<open>datetime(1, 1, 8)\<close> prints as \<^verbatim>\<open>1-01-08\<close>).
\<close>

definition digit_char :: "int \<Rightarrow> char" where
  "digit_char n = ''0123456789'' ! nat n"

definition zfill2 :: "int \<Rightarrow> string" where
  "zfill2 n = [digit_char (n div 10 mod 10), digit_char (n mod 10)]"

function decimal :: "int \<Rightarrow> string" where
  "decimal n = (if n < 10 then [digit_char n] else decimal (n div 10) @ [digit_char (n mod 10)])"
  by pat_completeness auto
termination
  by (relation "measure nat") auto

declare decimal.simps [simp del]

definition strftime :: "date \<Rightarrow> string" where
  "strftime dt = decimal (year dt) @ ''-'' @ zfill2 (month dt) @ ''-'' @ zfill2 (day dt)"

subsection \<open>generate\_dates\<close>

text \<open>The \<^verbatim>\<open>while i < weeks\<close> loop: append, step back seven days, count.\<close>

function generate_dates_loop :: "date \<Rightarrow> int \<Rightarrow> int \<Rightarrow> string list \<Rightarrow> error + string list" where
  "generate_dates_loop week i weeks alldates =
     (if i < weeks
      then (case sub_days week 7 of
              Inl e \<Rightarrow> Inl e
            | Inr week' \<Rightarrow> generate_dates_loop week' (i + 1) weeks (alldates @ [strftime week]))
      else Inr alldates)"
  by pat_completeness auto
termination
  by (relation "measure (\<lambda>(week, i, weeks, alldates). nat (weeks - i))") auto

definition generate_dates :: "string \<Rightarrow> int \<Rightarrow> error + string list" where
  "generate_dates first_week weeks =
     (case strptime first_week of
        Inl e \<Rightarrow> Inl e
      | Inr week \<Rightarrow> generate_dates_loop week 0 weeks [])"

subsection \<open>The parsed page\<close>

text \<open>
  \<^verbatim>\<open>requests.get\<close> and the lxml parser behind \<^verbatim>\<open>BeautifulSoup(page, 'lxml')\<close> are
  libraries outside the notebook; they are parameters of the model. A parsed page is
  a tree of tags (name, classes, children), text nodes and comments.
\<close>

datatype node =
    Tag string "string list" "node list"
  | NavigableString string
  | Comment string

text \<open>\<^verbatim>\<open>tag.descendants\<close>: every node below the tag, in document order.\<close>

fun descendants :: "node \<Rightarrow> node list" where
  "descendants (Tag name classes children) =
     concat (map (\<lambda>c. c # descendants c) children)"
| "descendants (NavigableString s) = []"
| "descendants (Comment s) = []"

fun has_class :: "string \<Rightarrow> node \<Rightarrow> bool" where
  "has_class c (Tag name classes children) = (c \<in> set classes)"
| "has_class c (NavigableString s) = False"
| "has_class c (Comment s) = False"

definition find_all :: "node \<Rightarrow> string \<Rightarrow> node list" where
  "find_all soup cls = filter (has_class cls) (descendants soup)"

text \<open>\<^verbatim>\<open>tag.text\<close>: the text nodes below the tag, joined; comments are skipped.\<close>

fun get_text :: "node \<Rightarrow> string" where
  "get_text (Tag name classes children) = concat (map get_text children)"
| "get_text (NavigableString s) = s"
| "get_text (Comment s) = []"

text \<open>\<^verbatim>\<open>str.strip()\<close> removes leading and trailing whitespace; below code point 256
  \<^verbatim>\<open>str.isspace\<close> holds for 9-13, 28-32, 133 and 160.\<close>

definition isspace :: "char \<Rightarrow> bool" where
  "isspace c = (let n = (of_char c :: nat)
                in (9 \<le> n \<and> n \<le> 13) \<or> (28 \<le> n \<and> n \<le> 32) \<or> n = 133 \<or> n = 160)"

definition strip :: "string \<Rightarrow> string" where
  "strip s = rev (dropWhile isspace (rev (dropWhile isspace s)))"

subsection \<open>scrape\_week\<close>

text \<open>
  A week's result is the Python list \<^verbatim>\<open>[songlist, artistlist, rankslist, weekslist]\<close>.
  The network is a state: the list of URLs requested so far. \<^verbatim>\<open>url[-10:]\<close> is the
  last ten characters of the URL (the whole URL when it is shorter).
\<close>

type_synonym week_record = "string list \<times> string list \<times> string list \<times> string list"

type_synonym network = "string list"

definition last10 :: "string \<Rightarrow> string" where
  "last10 url = drop (length url - 10) url"

definition scrape_week ::
  "(string \<Rightarrow> error + string) \<Rightarrow> (string \<Rightarrow> node) \<Rightarrow> string \<Rightarrow> network
     \<Rightarrow> (error + week_record) \<times> network" where
  "scrape_week requests_get lxml url net =
     (case requests_get url of
        Inl e \<Rightarrow> (Inl e, net @ [url])
      | Inr page \<Rightarrow>
          let soup = lxml page;
              songlist = map (\<lambda>song. strip (get_text song))
                           (find_all soup ''chart-list-item__title-text'');
              artistlist = map (\<lambda>artist. strip (get_text artist))
                             (find_all soup ''chart-list-item__artist'');
              rankslist = map (\<lambda>rank. strip (get_text rank))
                            (find_all soup ''chart-list-item__rank'');
              weekslist = [] @ replicate (length songlist) (last10 url)
          in (Inr (songlist, artistlist, rankslist, weekslist), net @ [url]))"

subsection \<open>scrape\_billboard\<close>

text \<open>
  \<^verbatim>\<open>int(round(days / 7))\<close>: Python rounds to the nearest integer, a tie to the even
  one. \<open>days / 7\<close> is never a tie and lies far from one compared to the precision of a
  float, so the float quotient rounds as the exact quotient does.
\<close>

definition py_round_div :: "int \<Rightarrow> int \<Rightarrow> int" where
  "py_round_div a b =
     (let q = a div b; r = a mod b
      in if 2 * r < b then q
         else if 2 * r > b then q + 1
         else if even q then q else q + 1)"

definition n_weeks_of :: "date \<Rightarrow> date \<Rightarrow> int" where
  "n_weeks_of a b = py_round_div (days_between a b) 7"

text \<open>
  \<^verbatim>\<open>pool.imap(scrape_week, url_list)\<close> yields one result per URL in the order of
  \<open>url_list\<close>; the first exception met while the results are collected is re-raised.
  The workers are modelled one after the other.
\<close>

fun imap ::
  "(string \<Rightarrow> network \<Rightarrow> (error + week_record) \<times> network) \<Rightarrow> string list \<Rightarrow> network
     \<Rightarrow> (error + week_record list) \<times> network" where
  "imap f [] net = (Inr [], net)"
| "imap f (u # us) net =
     (case f u net of
        (Inl e, net') \<Rightarrow> (Inl e, net')
      | (Inr r, net') \<Rightarrow>
          (case imap f us net' of
             (Inl e, net'') \<Rightarrow> (Inl e, net'')
           | (Inr rs, net'') \<Rightarrow> (Inr (r # rs), net'')))"

text \<open>The first two statements of \<^verbatim>\<open>scrape_billboard\<close>: the number of weeks and the
  dates to fetch.\<close>

definition date_list_of :: "string \<Rightarrow> string \<Rightarrow> error + string list" where
  "date_list_of first_week last_week =
     (case strptime first_week of
        Inl e \<Rightarrow> Inl e
      | Inr first_dt \<Rightarrow>
          (case strptime last_week of
             Inl e \<Rightarrow> Inl e
           | Inr last_dt \<Rightarrow>
               let n_weeks = n_weeks_of first_dt last_dt
               in generate_dates first_week n_weeks))"

definition scrape_billboard ::
  "(string \<Rightarrow> error + string) \<Rightarrow> (string \<Rightarrow> node) \<Rightarrow> string \<Rightarrow> string \<Rightarrow> string \<Rightarrow> network
     \<Rightarrow> (error + week_record list) \<times> network" where
  "scrape_billboard requests_get lxml first_week last_week url net =
     (case date_list_of first_week last_week of
        Inl e \<Rightarrow> (Inl e, net)
      | Inr date_list \<Rightarrow>
          let url_list = map (\<lambda>week. url @ week) date_list
          in imap (scrape_week requests_get lxml) url_list net)"

subsection \<open>The pandas cells: flattening and grouping\<close>

text \<open>
  A DataFrame is its columns in order, each a list of cells; a cell is a string or
  NaN (\<open>None\<close>). The index of a frame is as long as its columns; a frame with no
  column has an empty index.
\<close>

type_synonym cell = "string option"

type_synonym frame = "(string \<times> cell list) list"

definition index_len :: "frame \<Rightarrow> nat" where
  "index_len df = (case df of [] \<Rightarrow> 0 | (name, col) # _ \<Rightarrow> length col)"

text \<open>
  \<^verbatim>\<open>df[name] = values\<close> for a new column and a list of values. A frame whose index
  is empty takes its index from the values, and the columns it already has are filled
  with NaN; otherwise the values must be as many as the index, or pandas raises
  ValueError.
\<close>

definition setitem :: "frame \<Rightarrow> string \<Rightarrow> string list \<Rightarrow> error + frame" where
  "setitem df name vals =
     (if index_len df = 0
      then Inr (map (\<lambda>(k, col). (k, replicate (length vals) None)) df @ [(name, map Some vals)])
      else if length vals \<noteq> index_len df then Inl ValueError
      else Inr (df @ [(name, map Some vals)]))"

definition getitem :: "frame \<Rightarrow> string \<Rightarrow> error + cell list" where
  "getitem df name = (case map_of df name of None \<Rightarrow> Inl KeyError | Some col \<Rightarrow> Inr col)"

text \<open>
  The four assignments of the notebook; \<^verbatim>\<open>[item for lst in billboard_df['songs'] for item in lst]\<close>
  is the concatenation of the column over all weeks.
\<close>

definition flatten_tracks :: "week_record list \<Rightarrow> error + frame" where
  "flatten_tracks billboard_responses =
     (case setitem [] ''title'' (concat (map (\<lambda>(songs, artists, ranks, weeks). songs) billboard_responses)) of
        Inl e \<Rightarrow> Inl e
      | Inr df1 \<Rightarrow>
     (case setitem df1 ''artist'' (concat (map (\<lambda>(songs, artists, ranks, weeks). artists) billboard_responses)) of
        Inl e \<Rightarrow> Inl e
      | Inr df2 \<Rightarrow>
     (case setitem df2 ''rank'' (concat (map (\<lambda>(songs, artists, ranks, weeks). ranks) billboard_responses)) of
        Inl e \<Rightarrow> Inl e
      | Inr df3 \<Rightarrow>
        setitem df3 ''week'' (concat (map (\<lambda>(songs, artists, ranks, weeks). weeks) billboard_responses)))))"

text \<open>\<^verbatim>\<open>sep.join(xs)\<close> and \<^verbatim>\<open>s.split(sep)\<close> for a one-character separator.\<close>

fun str_join :: "string \<Rightarrow> string list \<Rightarrow> string" where
  "str_join sep [] = []"
| "str_join sep [x] = x"
| "str_join sep (x # y # ys) = x @ sep @ str_join sep (y # ys)"

fun str_split :: "char \<Rightarrow> string \<Rightarrow> string list" where
  "str_split sep [] = [[]]"
| "str_split sep (c # cs) =
     (if c = sep then [] # str_split sep cs
      else (case str_split sep cs of
              [] \<Rightarrow> [[c]]
            | p # ps \<Rightarrow> (c # p) # ps))"

text \<open>\<^verbatim>\<open>','.join\<close> applied to the cells of a group: a NaN among them is a float, and
  \<^verbatim>\<open>join\<close> raises TypeError.\<close>

definition join_cells :: "string \<Rightarrow> cell list \<Rightarrow> error + string" where
  "join_cells sep cells =
     (case those cells of None \<Rightarrow> Inl TypeError | Some ws \<Rightarrow> Inr (str_join sep ws))"

fun collect :: "(error + 'a) list \<Rightarrow> error + 'a list" where
  "collect [] = Inr []"
| "collect (Inl e # rs) = Inl e"
| "collect (Inr x # rs) = (case collect rs of Inl e \<Rightarrow> Inl e | Inr xs \<Rightarrow> Inr (x # xs))"

text \<open>
  \<^verbatim>\<open>groupby(['title','artist'])\<close> with the default \<^verbatim>\<open>sort=True\<close>: rows with a NaN key
  are dropped, the groups come in ascending order of the key (strings compare by
  code point, pairs lexicographically), and the rows of a group keep their order.
\<close>

definition group_keys :: "(cell \<times> cell) list \<Rightarrow> (string \<times> string) list" where
  "group_keys ks = sort (remdups (concat (map (\<lambda>k. case k of (Some t, Some a) \<Rightarrow> [(t, a)] | _ \<Rightarrow> []) ks)))"

text \<open>\<^verbatim>\<open>tracks_df.groupby(['title','artist'])['week'].apply(','.join).reset_index(name='weeks')\<close>:
  one row (title, artist, weeks) per group.\<close>

definition groupby_weeks :: "frame \<Rightarrow> error + (string \<times> string \<times> string) list" where
  "groupby_weeks df =
     (case getitem df ''title'' of
        Inl e \<Rightarrow> Inl e
      | Inr titles \<Rightarrow>
     (case getitem df ''artist'' of
        Inl e \<Rightarrow> Inl e
      | Inr artists \<Rightarrow>
     (case getitem df ''week'' of
        Inl e \<Rightarrow> Inl e
      | Inr weeks \<Rightarrow>
          let rows = zip (zip titles artists) weeks
          in collect (map (\<lambda>(t, a).
               case join_cells '','' (map snd (filter (\<lambda>row. fst row = (Some t, Some a)) rows)) of
                 Inl e \<Rightarrow> Inl e
               | Inr ws \<Rightarrow> Inr (t, a, ws))
             (group_keys (map fst rows))))))"

record track_aggregate =
  title :: string
  artist :: string
  weeks :: string
  week_count :: nat

text \<open>\<^verbatim>\<open>tracks_df['week_count'] = tracks_df['weeks'].apply(lambda x: len(x.split(',')))\<close>\<close>

definition add_week_count :: "(string \<times> string \<times> string) list \<Rightarrow> track_aggregate list" where
  "add_week_count grouped =
     map (\<lambda>(t, a, ws). \<lparr>title = t, artist = a, weeks = ws,
                          week_count = length (str_split CHR '','' ws)\<rparr>) grouped"

definition aggregate :: "week_record list \<Rightarrow> error + track_aggregate list" where
  "aggregate billboard_responses =
     (case flatten_tracks billboard_responses of
        Inl e \<Rightarrow> Inl e
      | Inr tracks_df \<Rightarrow>
          (case groupby_weeks tracks_df of
             Inl e \<Rightarrow> Inl e
           | Inr grouped \<Rightarrow> Inr (add_week_count grouped)))"

subsection \<open>Notions used to state the properties\<close>

text \<open>The date \<open>k\<close> weeks before a date, through the day number.\<close>

definition weeks_before :: "date \<Rightarrow> nat \<Rightarrow> date" where
  "weeks_before dt k = (if k = 0 then dt else fromordinal (toordinal dt - 7 * int k))"

text \<open>The count of the specification, \<open>\<lceil>days / 7\<rceil>\<close>, to compare with \<open>n_weeks_of\<close>.\<close>

definition ceiling_weeks :: "date \<Rightarrow> date \<Rightarrow> int" where
  "ceiling_weeks a b = - ((- days_between a b) div 7)"

text \<open>A rank as the specification types it: the decimal text of a positive integer.\<close>

definition positive_integer_text :: "string \<Rightarrow> bool" where
  "positive_integer_text s =
     (s \<noteq> [] \<and> list_all isdigit s \<and> \<not> list_all (\<lambda>c. c = CHR ''0'') s)"

text \<open>The flattened table as (title, artist, week) rows, and the weeks in which a
  track appears, in the order of the rows.\<close>

definition track_rows :: "week_record list \<Rightarrow> ((string \<times> string) \<times> string) list" where
  "track_rows billboard_responses =
     zip (zip (concat (map (\<lambda>(songlist, artistlist, rankslist, weekslist). songlist) billboard_responses))
              (concat (map (\<lambda>(songlist, artistlist, rankslist, weekslist). artistlist) billboard_responses)))
         (concat (map (\<lambda>(songlist, artistlist, rankslist, weekslist). weekslist) billboard_responses))"

definition appearances :: "week_record list \<Rightarrow> string \<Rightarrow> string \<Rightarrow> string list" where
  "appearances billboard_responses t a =
     map snd (filter (\<lambda>row. fst row = (t, a)) (track_rows billboard_responses))"

text \<open>The week identifiers of all records, and the key of a row of the result.\<close>

definition week_ids :: "week_record list \<Rightarrow> string list" where
  "week_ids billboard_responses =
     concat (map (\<lambda>(songlist, artistlist, rankslist, weekslist). weekslist) billboard_responses)"




subsection \<open>Example pages\<close>

definition example_get :: "string \<Rightarrow> error + string" where
  "example_get url = Inr ''<html></html>''"

definition soup_title_only :: "string \<Rightarrow> node" where
  "soup_title_only page =
     Tag ''[document]'' []
       [Tag ''span'' [''chart-list-item__title-text''] [NavigableString '' Song X '']]"

definition soup_rank_text :: "string \<Rightarrow> node" where
  "soup_rank_text page =
     Tag ''[document]'' []
       [Tag ''div'' [''chart-list-item__rank''] [NavigableString '' N/A '']]"

definition soup_no_items :: "string \<Rightarrow> node" where
  "soup_no_items page =
     Tag ''[document]'' [] [Tag ''p'' [''error''] [NavigableString ''No chart this week'']]"


section \<open>The calendar: day numbers and dates\<close>

lemma month_and_day_table:
  "\<forall>leap \<in> {True, False}. \<forall>n \<in> {0..364}.
     (case month_and_day leap n of (m, d) \<Rightarrow>
        1 \<le> m \<and> m \<le> 12 \<and> 1 \<le> d
        \<and> d \<le> (if m = 2 \<and> leap then 29 else DAYS_IN_MONTH ! nat m)
        \<and> DAYS_BEFORE_MONTH ! nat m + (if m > 2 \<and> leap then 1 else 0) + d = n + 1)"
  by code_simp

lemma month_and_day_props:
  assumes "0 \<le> n" "n < 365" "month_and_day leap n = (m, d)"
  shows "1 \<le> m" "m \<le> 12" "1 \<le> d"
    "d \<le> (if m = 2 \<and> leap then 29 else DAYS_IN_MONTH ! nat m)"
    "DAYS_BEFORE_MONTH ! nat m + (if m > 2 \<and> leap then 1 else 0) + d = n + 1"
proof -
  have "case month_and_day leap n of (m, d) \<Rightarrow>
        1 \<le> m \<and> m \<le> 12 \<and> 1 \<le> d
        \<and> d \<le> (if m = 2 \<and> leap then 29 else DAYS_IN_MONTH ! nat m)
        \<and> DAYS_BEFORE_MONTH ! nat m + (if m > 2 \<and> leap then 1 else 0) + d = n + 1"
    by (rule month_and_day_table [rule_format]) (use assms in simp_all)
  then show "1 \<le> m" "m \<le> 12" "1 \<le> d"
    "d \<le> (if m = 2 \<and> leap then 29 else DAYS_IN_MONTH ! nat m)"
    "DAYS_BEFORE_MONTH ! nat m + (if m > 2 \<and> leap then 1 else 0) + d = n + 1"
    using assms(3) by simp_all
qed

text \<open>The decomposition of a day number that ord2ymd computes.\<close>

lemma ord_decompose:
  fixes n :: int
  assumes "1 \<le> n"
  defines "a \<equiv> (n - 1) div 146097"
  defines "b \<equiv> (n - 1) mod 146097 div 36524"
  defines "c \<equiv> (n - 1) mod 146097 mod 36524 div 1461"
  defines "e \<equiv> (n - 1) mod 146097 mod 36524 mod 1461 div 365"
  defines "r \<equiv> (n - 1) mod 146097 mod 36524 mod 1461 mod 365"
  shows "n - 1 = 146097 * a + 36524 * b + 1461 * c + 365 * e + r"
    and "0 \<le> a" "0 \<le> b" "b \<le> 4" "0 \<le> c" "c \<le> 24" "0 \<le> e" "e \<le> 4" "0 \<le> r" "r < 365"
    and "b = 4 \<Longrightarrow> c = 0 \<and> e = 0 \<and> r = 0"
    and "e = 4 \<Longrightarrow> r = 0 \<and> c \<le> 23"
proof -
  define r1 where "r1 = (n - 1) mod 146097"
  define r2 where "r2 = r1 mod 36524"
  define r3 where "r3 = r2 mod 1461"
  have e1: "n - 1 = 146097 * a + r1" by (simp add: a_def r1_def)
  have e2: "r1 = 36524 * b + r2" by (simp add: b_def r2_def r1_def)
  have e3: "r2 = 1461 * c + r3" by (simp add: c_def r3_def r2_def r1_def)
  have e4: "r3 = 365 * e + r" by (simp add: e_def r_def r3_def r2_def r1_def)
  have b1: "0 \<le> r1" "r1 < 146097" by (simp_all add: r1_def)
  have b2: "0 \<le> r2" "r2 < 36524" by (simp_all add: r2_def)
  have b3: "0 \<le> r3" "r3 < 1461" by (simp_all add: r3_def)
  have b4: "0 \<le> r" "r < 365" by (simp_all add: r_def)
  show "n - 1 = 146097 * a + 36524 * b + 1461 * c + 365 * e + r"
    using e1 e2 e3 e4 by simp
  show "0 \<le> a" using assms(1) by (simp add: a_def)
  show "0 \<le> b" using b1 by (simp add: b_def r1_def)
  show "b \<le> 4" using e2 b1 b2 by linarith
  show "0 \<le> c" using b2 by (simp add: c_def r2_def r1_def)
  show "c \<le> 24" using e3 b2 b3 by linarith
  show "0 \<le> e" using b3 by (simp add: e_def r3_def r2_def r1_def)
  show "e \<le> 4" using e4 b3 b4 by linarith
  show "0 \<le> r" "r < 365" using b4 by simp_all
  show "b = 4 \<Longrightarrow> c = 0 \<and> e = 0 \<and> r = 0"
    using e2 e3 e4 b1 b2 b3 b4 \<open>0 \<le> c\<close> \<open>0 \<le> e\<close> by linarith
  show "e = 4 \<Longrightarrow> r = 0 \<and> c \<le> 23"
    using e3 e4 b2 b3 b4 by linarith
qed


lemma is_leap_decomposed:
  fixes a b c e :: int
  assumes "0 \<le> a" "0 \<le> b" "b \<le> 3" "0 \<le> c" "c \<le> 24" "0 \<le> e" "e \<le> 3"
  shows "is_leap (400 * a + 100 * b + 4 * c + e + 1) = (e = 3 \<and> (c \<noteq> 24 \<or> b = 3))"
proof -
  let ?y = "400 * a + 100 * b + 4 * c + e + 1"
  have y4: "?y = (e + 1) + 4 * (100 * a + 25 * b + c)" by simp
  have y100: "?y = (4 * c + e + 1) + 100 * (4 * a + b)" by simp
  have y400: "?y = (100 * b + 4 * c + e + 1) + 400 * a" by simp
  have m4: "?y mod 4 = (e + 1) mod 4" by (subst y4) (rule mod_mult_self2)
  have m100: "?y mod 100 = (4 * c + e + 1) mod 100" by (subst y100) (rule mod_mult_self2)
  have m400: "?y mod 400 = (100 * b + 4 * c + e + 1) mod 400" by (subst y400) (rule mod_mult_self2)
  have 1: "(e + 1) mod 4 = 0 \<longleftrightarrow> e = 3" using assms(6,7) by presburger
  have 2: "(4 * c + e + 1) mod 100 = 0 \<longleftrightarrow> c = 24" if "e = 3"
  proof -
    have "0 < 4 * c + e + 1" "4 * c + e + 1 \<le> 100" using assms that by simp_all
    then have "(4 * c + e + 1) mod 100 = 0 \<longleftrightarrow> 4 * c + e + 1 = 100"
      by (metis less_le mod_pos_pos_trivial mod_self order_less_irrefl zero_less_iff_neq_zero order.strict_implies_order)
    then show ?thesis using that by auto
  qed
  have 3: "(100 * b + 4 * c + e + 1) mod 400 = 0 \<longleftrightarrow> b = 3" if "e = 3" "c = 24"
  proof -
    have "(100 * b + 4 * c + e + 1) = 100 * (b + 1)" using that by simp
    moreover have "100 * (b + 1) mod 400 = 0 \<longleftrightarrow> b = 3" using assms(2,3) by presburger
    ultimately show ?thesis by (simp only:)
  qed
  show ?thesis
    unfolding is_leap_def m4 m100 m400 using 1 2 3 by auto
qed

lemma days_before_year_decomposed:
  fixes a b c e :: int
  assumes "0 \<le> b" "b \<le> 3" "0 \<le> c" "c \<le> 24" "0 \<le> e" "e \<le> 3"
  shows "days_before_year (400 * a + 100 * b + 4 * c + e + 1)
           = 146097 * a + 36524 * b + 1461 * c + 365 * e"
proof -
  let ?y = "400 * a + 100 * b + 4 * c + e"
  have y4: "?y = e + 4 * (100 * a + 25 * b + c)" by simp
  have y100: "?y = (4 * c + e) + 100 * (4 * a + b)" by simp
  have y400: "?y = (100 * b + 4 * c + e) + 400 * a" by simp
  have d4: "?y div 4 = 100 * a + 25 * b + c"
    by (subst y4) (use assms in \<open>simp add: div_pos_pos_trivial\<close>)
  have d100: "?y div 100 = 4 * a + b"
    by (subst y100) (use assms in \<open>simp add: div_pos_pos_trivial\<close>)
  have d400: "?y div 400 = a"
    by (subst y400) (use assms in \<open>simp add: div_pos_pos_trivial\<close>)
  show ?thesis
    unfolding days_before_year_def using d4 d100 d400 by simp
qed


lemma ord2ymd_cases:
  fixes n :: int
  defines "a \<equiv> (n - 1) div 146097"
  defines "b \<equiv> (n - 1) mod 146097 div 36524"
  defines "c \<equiv> (n - 1) mod 146097 mod 36524 div 1461"
  defines "e \<equiv> (n - 1) mod 146097 mod 36524 mod 1461 div 365"
  defines "r \<equiv> (n - 1) mod 146097 mod 36524 mod 1461 mod 365"
  shows "ord2ymd n =
          (if e = 4 \<or> b = 4 then \<lparr>year = 400 * a + 100 * b + 4 * c + e, month = 12, day = 31\<rparr>
           else \<lparr>year = 400 * a + 100 * b + 4 * c + e + 1,
                 month = fst (month_and_day (e = 3 \<and> (c \<noteq> 24 \<or> b = 3)) r),
                 day = snd (month_and_day (e = 3 \<and> (c \<noteq> 24 \<or> b = 3)) r)\<rparr>)"
  unfolding ord2ymd_def Let_def a_def b_def c_def e_def r_def
  by (simp add: case_prod_unfold)

lemma toordinal_fromordinal:
  assumes "1 \<le> n"
  shows "toordinal (fromordinal n) = n"
proof -
  define a where "a = (n - 1) div 146097"
  define b where "b = (n - 1) mod 146097 div 36524"
  define c where "c = (n - 1) mod 146097 mod 36524 div 1461"
  define e where "e = (n - 1) mod 146097 mod 36524 mod 1461 div 365"
  define r where "r = (n - 1) mod 146097 mod 36524 mod 1461 mod 365"
  note D = ord_decompose [OF assms, folded a_def b_def c_def e_def r_def]
  note O = ord2ymd_cases [of n, folded a_def b_def c_def e_def r_def]
  have n_eq: "n = 146097 * a + 36524 * b + 1461 * c + 365 * e + r + 1"
    using D(1) by simp
  show ?thesis
  proof (cases "e = 4 \<or> b = 4")
    case True
    have bounds: "0 \<le> b" "b \<le> 3 \<or> b = 4" "0 \<le> c" "c \<le> 24" "0 \<le> e" "e \<le> 3 \<or> e = 4"
      using D by auto
    show ?thesis
    proof (cases "b = 4")
      case b4: True
      then have z: "c = 0" "e = 0" "r = 0" using D(11) by simp_all
      define Y where "Y = 400 * a + 100 * b + 4 * c + e"
      have y: "Y = 400 * a + 100 * 3 + 4 * 24 + 3 + 1"
        using b4 z by (simp add: Y_def)
      have leap: "is_leap Y"
        unfolding y using is_leap_decomposed [of a 3 24 3] D(2) by simp
      have dby: "days_before_year Y = 146097 * a + 36524 * 3 + 1461 * 24 + 365 * 3"
        unfolding y by (rule days_before_year_decomposed) simp_all
      have "fromordinal n = \<lparr>year = Y, month = 12, day = 31\<rparr>"
        unfolding fromordinal_def O Y_def using True by simp
      then show ?thesis
        by (simp add: toordinal_def ymd2ord_def days_before_month_def DAYS_BEFORE_MONTH_def
              leap dby n_eq b4 z)
    next
      case b4: False
      with True have e4: "e = 4" by simp
      then have z: "r = 0" "c \<le> 23" using D(12) by simp_all
      have b3: "b \<le> 3" using b4 D(4) by simp
      define Y where "Y = 400 * a + 100 * b + 4 * c + e"
      have y: "Y = 400 * a + 100 * b + 4 * c + 3 + 1"
        using e4 by (simp add: Y_def)
      have leap: "is_leap Y"
        unfolding y using is_leap_decomposed [of a b c 3] D(2,3,5) b3 z by simp
      have dby: "days_before_year Y = 146097 * a + 36524 * b + 1461 * c + 365 * 3"
        unfolding y by (rule days_before_year_decomposed) (use D b3 z in simp_all)
      have "fromordinal n = \<lparr>year = Y, month = 12, day = 31\<rparr>"
        unfolding fromordinal_def O Y_def using True by simp
      then show ?thesis
        by (simp add: toordinal_def ymd2ord_def days_before_month_def DAYS_BEFORE_MONTH_def
              leap dby n_eq e4 z)
    qed
  next
    case False
    then have b3: "b \<le> 3" and e3: "e \<le> 3" using D(4,8) by simp_all
    let ?leap = "e = 3 \<and> (c \<noteq> 24 \<or> b = 3)"
    obtain m d where md: "month_and_day ?leap r = (m, d)" by (cases "month_and_day ?leap r")
    note M = month_and_day_props [OF D(9) D(10) md]
    define Y where "Y = 400 * a + 100 * b + 4 * c + e + 1"
    have leap: "is_leap Y = ?leap"
      unfolding Y_def by (rule is_leap_decomposed) (use D b3 e3 in simp_all)
    have dby: "days_before_year Y = 146097 * a + 36524 * b + 1461 * c + 365 * e"
      unfolding Y_def by (rule days_before_year_decomposed) (use D b3 e3 in simp_all)
    have "fromordinal n = \<lparr>year = Y, month = m, day = d\<rparr>"
    proof -
      have "fst (month_and_day ?leap r) = m" "snd (month_and_day ?leap r) = d"
        using md by simp_all
      then show ?thesis
        unfolding fromordinal_def O Y_def using False by simp
    qed
    then have "toordinal (fromordinal n) = days_before_year Y
            + (DAYS_BEFORE_MONTH ! nat m + (if m > 2 \<and> ?leap then 1 else 0)) + d"
      by (simp add: toordinal_def ymd2ord_def days_before_month_def leap)
    also have "\<dots> = 146097 * a + 36524 * b + 1461 * c + 365 * e + (r + 1)"
      using M(5) dby by simp
    finally show ?thesis using n_eq by simp
  qed
qed


lemma valid_date_fromordinal:
  assumes "1 \<le> n" "n \<le> MAXORDINAL"
  shows "valid_date (fromordinal n)"
proof -
  define a where "a = (n - 1) div 146097"
  define b where "b = (n - 1) mod 146097 div 36524"
  define c where "c = (n - 1) mod 146097 mod 36524 div 1461"
  define e where "e = (n - 1) mod 146097 mod 36524 mod 1461 div 365"
  define r where "r = (n - 1) mod 146097 mod 36524 mod 1461 mod 365"
  note D = ord_decompose [OF assms(1), folded a_def b_def c_def e_def r_def]
  note O = ord2ymd_cases [of n, folded a_def b_def c_def e_def r_def]
  have n_le: "146097 * a + 36524 * b + 1461 * c + 365 * e + r \<le> 3652058"
    using D(1) assms(2) by (simp add: MAXORDINAL_def)
  have a24: "a \<le> 24" using n_le D by linarith
  show ?thesis
  proof (cases "e = 4 \<or> b = 4")
    case True
    define Y where "Y = 400 * a + 100 * b + 4 * c + e"
    have Y: "fromordinal n = \<lparr>year = Y, month = 12, day = 31\<rparr>"
      unfolding fromordinal_def O Y_def using True by simp
    have "1 \<le> Y" unfolding Y_def using True D by linarith
    moreover have "Y \<le> 9999"
    proof (cases "a = 24")
      case True
      then have "36524 * b + 1461 * c + 365 * e + r \<le> 145730" using n_le by simp
      then have "b \<le> 3" using D by linarith
      with \<open>e = 4 \<or> b = 4\<close> have "e = 4" by auto
      then have "c \<le> 23" using D(12) by simp
      then show ?thesis unfolding Y_def using True \<open>b \<le> 3\<close> \<open>e = 4\<close> by simp
    next
      case False
      then have "a \<le> 23" using a24 by simp
      then show ?thesis unfolding Y_def using D by linarith
    qed
    ultimately show ?thesis
      using Y by (simp add: valid_date_def check_date_fields_def MINYEAR_def MAXYEAR_def
          days_in_month_def DAYS_IN_MONTH_def)
  next
    case False
    then have b3: "b \<le> 3" and e3: "e \<le> 3" using D(4,8) by simp_all
    let ?leap = "e = 3 \<and> (c \<noteq> 24 \<or> b = 3)"
    obtain m d where md: "month_and_day ?leap r = (m, d)" by (cases "month_and_day ?leap r")
    note M = month_and_day_props [OF D(9) D(10) md]
    define Y where "Y = 400 * a + 100 * b + 4 * c + e + 1"
    have leap: "is_leap Y = ?leap"
      unfolding Y_def by (rule is_leap_decomposed) (use D b3 e3 in simp_all)
    have Y: "fromordinal n = \<lparr>year = Y, month = m, day = d\<rparr>"
    proof -
      have "fst (month_and_day ?leap r) = m" "snd (month_and_day ?leap r) = d"
        using md by simp_all
      then show ?thesis
        unfolding fromordinal_def O Y_def using False by simp
    qed
    have "1 \<le> Y" unfolding Y_def using D by linarith
    moreover have "Y \<le> 9999"
    proof (cases "a = 24")
      case True
      then have "36524 * b + 1461 * c + 365 * e + r \<le> 145730" using n_le by simp
      then have "100 * b + 4 * c + e \<le> 398" using D b3 e3 by linarith
      then show ?thesis unfolding Y_def using True by simp
    next
      case False
      then have "a \<le> 23" using a24 by simp
      then show ?thesis unfolding Y_def using D by linarith
    qed
    moreover have "d \<le> days_in_month Y m"
      using M(4) by (simp add: days_in_month_def leap)
    ultimately show ?thesis
      using Y M(1,2,3) by (simp add: valid_date_def check_date_fields_def MINYEAR_def MAXYEAR_def)
  qed
qed

section \<open>Parsing and printing dates\<close>

lemma digit_cases:
  fixes k :: int
  assumes "0 \<le> k" "k \<le> 9"
  shows "k = 0 \<or> k = 1 \<or> k = 2 \<or> k = 3 \<or> k = 4 \<or> k = 5 \<or> k = 6 \<or> k = 7 \<or> k = 8 \<or> k = 9"
  using assms by arith

lemma digit_char_props:
  assumes "0 \<le> k" "k \<le> 9"
  shows "isdigit (digit_char k)" "digit_val (digit_char k) = k"
    "digit_char k \<noteq> CHR ''-''"
  using digit_cases [OF assms]
  by (auto simp add: digit_char_def isdigit_def digit_val_def)

lemma digits4:
  fixes y :: int
  assumes "0 \<le> y" "y \<le> 9999"
  shows "1000 * (y div 1000 mod 10) + 100 * (y div 100 mod 10) + 10 * (y div 10 mod 10) + y mod 10 = y"
proof -
  have 1: "y div 10 = 10 * (y div 100) + y div 10 mod 10"
    using zdiv_zmult2_eq [of 10 y 10] by simp
  have 2: "y div 100 = 10 * (y div 1000) + y div 100 mod 10"
    using zdiv_zmult2_eq [of 10 y 100] by simp
  have 3: "y div 1000 mod 10 = y div 1000"
    using assms by (simp add: mod_pos_pos_trivial)
  have 0: "y = 10 * (y div 10) + y mod 10" by simp
  show ?thesis using 0 1 2 3 by linarith
qed


lemma re_Y_digits:
  assumes "0 \<le> d3" "d3 \<le> 9" "0 \<le> d2" "d2 \<le> 9" "0 \<le> d1" "d1 \<le> 9" "0 \<le> d0" "d0 \<le> 9"
  shows "re_Y (digit_char d3 # digit_char d2 # digit_char d1 # digit_char d0 # rest)
           = [(1000 * d3 + 100 * d2 + 10 * d1 + d0, rest)]"
  using assms by (simp add: re_Y_def digit_char_props)

lemma decimal_four_digits:
  assumes "1000 \<le> y" "y \<le> 9999"
  shows "decimal y = [digit_char (y div 1000 mod 10), digit_char (y div 100 mod 10),
                      digit_char (y div 10 mod 10), digit_char (y mod 10)]"
proof -
  have d100: "y div 10 div 10 = y div 100" using zdiv_zmult2_eq [of 10 y 10] by simp
  have d1000: "y div 100 div 10 = y div 1000" using zdiv_zmult2_eq [of 10 y 100] by simp
  have b: "\<not> y < 10" "\<not> y div 10 < 10" "\<not> y div 100 < 10" "y div 1000 < 10"
    using assms by simp_all
  have m: "y div 1000 mod 10 = y div 1000"
    using assms by (simp add: mod_pos_pos_trivial)
  have "decimal y = decimal (y div 10) @ [digit_char (y mod 10)]"
    using b(1) by (subst decimal.simps) simp
  also have "decimal (y div 10) = decimal (y div 100) @ [digit_char (y div 10 mod 10)]"
    using b(2) by (subst decimal.simps) (simp add: d100)
  also have "decimal (y div 100) = decimal (y div 1000) @ [digit_char (y div 100 mod 10)]"
    using b(3) by (subst decimal.simps) (simp add: d1000)
  also have "decimal (y div 1000) = [digit_char (y div 1000 mod 10)]"
    using b(4) by (subst decimal.simps) (simp add: m)
  finally show ?thesis by simp
qed

lemma re_Y_decimal:
  assumes "1000 \<le> y" "y \<le> 9999"
  shows "re_Y (decimal y @ rest) = [(y, rest)]"
proof -
  have y0: "0 \<le> y" using assms(1) by simp
  have "re_Y (decimal y @ rest)
          = [(1000 * (y div 1000 mod 10) + 100 * (y div 100 mod 10) + 10 * (y div 10 mod 10) + y mod 10, rest)]"
    unfolding decimal_four_digits [OF assms] append_Cons append_Nil
    by (rule re_Y_digits) simp_all
  then show ?thesis by (simp only: digits4 [OF y0 assms(2)])
qed

lemma month_cases:
  fixes m :: int
  assumes "1 \<le> m" "m \<le> 12"
  shows "m = 1 \<or> m = 2 \<or> m = 3 \<or> m = 4 \<or> m = 5 \<or> m = 6 \<or> m = 7 \<or> m = 8 \<or> m = 9
         \<or> m = 10 \<or> m = 11 \<or> m = 12"
  using assms by arith

lemma day_cases:
  fixes d :: int
  assumes "1 \<le> d" "d \<le> 31"
  shows "d = 1 \<or> d = 2 \<or> d = 3 \<or> d = 4 \<or> d = 5 \<or> d = 6 \<or> d = 7 \<or> d = 8 \<or> d = 9
         \<or> d = 10 \<or> d = 11 \<or> d = 12 \<or> d = 13 \<or> d = 14 \<or> d = 15 \<or> d = 16 \<or> d = 17 \<or> d = 18
         \<or> d = 19 \<or> d = 20 \<or> d = 21 \<or> d = 22 \<or> d = 23 \<or> d = 24 \<or> d = 25 \<or> d = 26 \<or> d = 27
         \<or> d = 28 \<or> d = 29 \<or> d = 30 \<or> d = 31"
  using assms by arith

text \<open>After a month written with two digits and a dash, only the month itself leads on.\<close>

lemma re_m_zfill2:
  assumes "1 \<le> m" "m \<le> 12"
  shows "concat (map (\<lambda>(m', r3). concat (map (f m') (lit CHR ''-'' r3)))
            (re_m (zfill2 m @ CHR ''-'' # rest))) = f m rest"
  using month_cases [OF assms]
  by (elim disjE; simp add: re_m_def zfill2_def digit_char_def lit_def between_def digit_val_def)

lemma re_d_zfill2:
  assumes "1 \<le> d" "d \<le> 31"
  shows "\<exists>more. re_d (zfill2 d) = (d, []) # more"
  using day_cases [OF assms]
  by (elim disjE; simp add: re_d_def zfill2_def digit_char_def between_def digit_val_def isdigit_def)


lemma lit_same: "lit c (c # r) = [r]"
  by (simp add: lit_def)

lemma days_in_month_le_31: "1 \<le> m \<Longrightarrow> m \<le> 12 \<Longrightarrow> days_in_month y m \<le> 31"
  using month_cases [of m]
  by (auto simp add: days_in_month_def DAYS_IN_MONTH_def)

lemma format_regex_matches_strftime:
  assumes "valid_date dt" and "1000 \<le> year dt"
  shows "\<exists>more. format_regex_matches (strftime dt) = ((year dt, month dt, day dt), []) # more"
proof -
  have y: "1000 \<le> year dt" "year dt \<le> 9999" and m: "1 \<le> month dt" "month dt \<le> 12"
    and d: "1 \<le> day dt" "day dt \<le> days_in_month (year dt) (month dt)"
    using assms by (simp_all add: valid_date_def check_date_fields_def MINYEAR_def MAXYEAR_def)
  have d31: "day dt \<le> 31" using d(2) days_in_month_le_31 [OF m] by (rule order_trans)
  obtain more where more: "re_d (zfill2 (day dt)) = (day dt, []) # more"
    using re_d_zfill2 [OF d(1) d31] by blast
  have "format_regex_matches (strftime dt)
          = map (\<lambda>(d, r5). ((year dt, month dt, d), r5)) (re_d (zfill2 (day dt)))"
    unfolding format_regex_matches_def strftime_def
    by (simp add: re_Y_decimal [OF y] lit_same re_m_zfill2 [OF m])
  then show ?thesis by (simp add: more)
qed

lemma strptime_strftime:
  assumes "valid_date dt" and "1000 \<le> year dt"
  shows "strptime (strftime dt) = Inr dt"
proof -
  obtain more where "format_regex_matches (strftime dt) = ((year dt, month dt, day dt), []) # more"
    using format_regex_matches_strftime [OF assms] by blast
  then show ?thesis
    using assms(1) by (simp add: strptime_def valid_date_def)
qed

lemma strptime_valid:
  assumes "strptime s = Inr dt"
  shows "valid_date dt"
  using assms
  by (auto simp add: strptime_def valid_date_def split: list.splits if_splits prod.splits)

lemma strptime_error:
  assumes "strptime s = Inl e"
  shows "e = ValueError"
  using assms
  by (auto simp add: strptime_def split: list.splits if_splits prod.splits)

lemma digit_char_inj:
  assumes "0 \<le> j" "j \<le> 9" "0 \<le> k" "k \<le> 9" "digit_char j = digit_char k"
  shows "j = k"
proof -
  have "j = digit_val (digit_char j)" by (simp only: digit_char_props(2) [OF assms(1,2)])
  also have "\<dots> = digit_val (digit_char k)" by (simp only: assms(5))
  also have "\<dots> = k" by (simp only: digit_char_props(2) [OF assms(3,4)])
  finally show ?thesis .
qed

lemma decimal_not_Nil: "decimal n \<noteq> []"
  by (subst decimal.simps) simp

lemma decimal_digits:
  assumes "0 \<le> n"
  shows "\<forall>c \<in> set (decimal n). isdigit c"
  using assms
proof (induction n rule: decimal.induct)
  case (1 n)
  show ?case
  proof (cases "n < 10")
    case True
    then have "isdigit (digit_char n)" using "1.prems" by (simp add: digit_char_props)
    then show ?thesis using True by (subst decimal.simps) simp
  next
    case False
    then have "\<forall>c \<in> set (decimal (n div 10)). isdigit c"
      using "1.IH" "1.prems" by simp
    moreover have "isdigit (digit_char (n mod 10))" by (simp add: digit_char_props)
    ultimately show ?thesis using False by (subst decimal.simps) simp
  qed
qed

lemma decimal_inj:
  assumes "0 \<le> a" "0 \<le> b" "decimal a = decimal b"
  shows "a = b"
  using assms
proof (induction a arbitrary: b rule: decimal.induct)
  case (1 a)
  have da: "decimal a = (if a < 10 then [digit_char a]
                         else decimal (a div 10) @ [digit_char (a mod 10)])"
    by (subst decimal.simps) simp
  have db: "decimal b = (if b < 10 then [digit_char b]
                         else decimal (b div 10) @ [digit_char (b mod 10)])"
    by (subst decimal.simps) simp
  show ?case
  proof (cases "a < 10")
    case a: True
    show ?thesis
    proof (cases "b < 10")
      case True
      then have "digit_char a = digit_char b" using a "1.prems"(3) da db by simp
      then show ?thesis using a True "1.prems"(1,2) by (intro digit_char_inj) simp_all
    next
      case False
      then have "decimal (b div 10) = []" using a "1.prems"(3) da db by simp
      then show ?thesis using decimal_not_Nil by simp
    qed
  next
    case a: False
    show ?thesis
    proof (cases "b < 10")
      case True
      then have "decimal (a div 10) = []" using a "1.prems"(3) da db by simp
      then show ?thesis using decimal_not_Nil by simp
    next
      case False
      then have e: "decimal (a div 10) = decimal (b div 10)"
        "digit_char (a mod 10) = digit_char (b mod 10)"
        using a "1.prems"(3) da db by simp_all
      have q: "a div 10 = b div 10"
        using "1.IH" [OF a _ _ e(1)] "1.prems"(1,2) by simp
      have r: "a mod 10 = b mod 10"
        using e(2) by (intro digit_char_inj) simp_all
      have "a = 10 * (a div 10) + a mod 10" by simp
      also have "\<dots> = 10 * (b div 10) + b mod 10" by (simp only: q r)
      also have "\<dots> = b" by simp
      finally show ?thesis .
    qed
  qed
qed

lemma zfill2_inj:
  assumes "0 \<le> j" "j \<le> 99" "0 \<le> k" "k \<le> 99" "zfill2 j = zfill2 k"
  shows "j = k"
proof -
  have hi: "j div 10 mod 10 = j div 10" "k div 10 mod 10 = k div 10"
    using assms(1-4) by (simp_all add: mod_pos_pos_trivial)
  have d: "digit_char (j div 10 mod 10) = digit_char (k div 10 mod 10)"
       "digit_char (j mod 10) = digit_char (k mod 10)"
    using assms(5) by (simp_all add: zfill2_def)
  have "j div 10 mod 10 = k div 10 mod 10"
    by (rule digit_char_inj [OF _ _ _ _ d(1)]) simp_all
  moreover have "j mod 10 = k mod 10"
    by (rule digit_char_inj [OF _ _ _ _ d(2)]) simp_all
  ultimately have "j div 10 mod 10 = k div 10 mod 10" "j mod 10 = k mod 10" by simp_all
  then have q: "j div 10 = k div 10" and r: "j mod 10 = k mod 10" using hi by simp_all
  have "j = 10 * (j div 10) + j mod 10" by simp
  also have "\<dots> = 10 * (k div 10) + k mod 10" by (simp only: q r)
  also have "\<dots> = k" by simp
  finally show ?thesis .
qed

text \<open>A printed date determines the date.\<close>

lemma strftime_inj:
  assumes "valid_date a" "valid_date b" "strftime a = strftime b"
  shows "a = b"
proof -
  have va: "1 \<le> year a" "1 \<le> month a" "month a \<le> 12" "1 \<le> day a" "day a \<le> 31"
    using assms(1) days_in_month_le_31 [of "month a" "year a"]
    by (auto simp add: valid_date_def check_date_fields_def MINYEAR_def)
  have vb: "1 \<le> year b" "1 \<le> month b" "month b \<le> 12" "1 \<le> day b" "day b \<le> 31"
    using assms(2) days_in_month_le_31 [of "month b" "year b"]
    by (auto simp add: valid_date_def check_date_fields_def MINYEAR_def)
  let ?ta = "''-'' @ zfill2 (month a) @ ''-'' @ zfill2 (day a)"
  let ?tb = "''-'' @ zfill2 (month b) @ ''-'' @ zfill2 (day b)"
  have len: "length ?ta = length ?tb" by (simp add: zfill2_def)
  have "decimal (year a) @ ?ta = decimal (year b) @ ?tb"
    using assms(3) by (simp add: strftime_def)
  then have "decimal (year a) = decimal (year b) \<and> ?ta = ?tb"
    by (rule append_eq_append_conv [OF disjI2 [OF len], THEN iffD1])
  then have y: "decimal (year a) = decimal (year b)" and t: "?ta = ?tb"
    by blast+
  have "year a = year b" using va(1) vb(1) y by (intro decimal_inj) simp_all
  moreover have z: "zfill2 (month a) = zfill2 (month b)" "zfill2 (day a) = zfill2 (day b)"
    using t by (simp_all add: zfill2_def)
  have "month a = month b"
    by (rule zfill2_inj [OF _ _ _ _ z(1)]) (use va vb in simp_all)
  moreover have "day a = day b"
    by (rule zfill2_inj [OF _ _ _ _ z(2)]) (use va vb in simp_all)
  ultimately show ?thesis by simp
qed

lemma not_isdigit_comma: "\<not> isdigit CHR '',''"
  by (simp add: isdigit_def)

lemma strftime_no_comma:
  assumes "1 \<le> year dt"
  shows "CHR '','' \<notin> set (strftime dt)"
proof -
  have "\<forall>c \<in> set (decimal (year dt)). isdigit c"
    using assms by (intro decimal_digits) simp
  then have y: "CHR '','' \<notin> set (decimal (year dt))"
    using not_isdigit_comma by blast
  have z: "CHR '','' \<notin> set (zfill2 k)" for k
  proof -
    have "\<forall>c \<in> set (zfill2 k). isdigit c"
      by (simp add: zfill2_def digit_char_props)
    then show ?thesis using not_isdigit_comma by blast
  qed
  show ?thesis using y z by (simp add: strftime_def)
qed

section \<open>The loop of generate\_dates\<close>

lemma days_before_year_bounds:
  assumes "1 \<le> y" "y \<le> 9999"
  shows "0 \<le> days_before_year y" "days_before_year y \<le> 3651694"
proof -
  define z where "z = y - 1"
  define q where "q = z div 4"
  have z: "0 \<le> z" "z \<le> 9998" using assms by (simp_all add: z_def)
  have q: "0 \<le> q" "q \<le> 2499" using z by (simp_all add: q_def)
  have c: "z div 100 = q div 25"
    using zdiv_zmult2_eq [of 25 z 4] by (simp add: q_def)
  have q25: "q = 25 * (q div 25) + q mod 25" by simp
  have m25: "0 \<le> q mod 25" "q mod 25 \<le> 24" by simp_all
  have d25: "q div 25 \<le> q" "0 \<le> q div 25" "25 * (q div 25) \<ge> q - 24"
    using q q25 m25 by linarith+
  have d400: "0 \<le> z div 400" "z div 400 \<le> 24" using z by simp_all
  have e: "days_before_year y = z * 365 + q - q div 25 + z div 400"
    by (simp add: days_before_year_def z_def q_def c [unfolded q_def z_def])
  show "0 \<le> days_before_year y" using e z d25 d400 by linarith
  show "days_before_year y \<le> 3651694" using e z q d25 d400 by linarith
qed

lemma days_before_month_bounds:
  assumes "1 \<le> m" "m \<le> 12" "1 \<le> d" "d \<le> days_in_month y m"
  shows "0 \<le> days_before_month y m" "days_before_month y m + d \<le> 366"
  using month_cases [OF assms(1,2)] assms(3,4)
  by (auto simp add: days_before_month_def days_in_month_def DAYS_BEFORE_MONTH_def
        DAYS_IN_MONTH_def split: if_splits)

lemma toordinal_bounds:
  assumes "valid_date dt"
  shows "1 \<le> toordinal dt" "toordinal dt \<le> MAXORDINAL + 7"
proof -
  have v: "1 \<le> year dt" "year dt \<le> 9999" "1 \<le> month dt" "month dt \<le> 12"
    "1 \<le> day dt" "day dt \<le> days_in_month (year dt) (month dt)"
    using assms by (simp_all add: valid_date_def check_date_fields_def MINYEAR_def MAXYEAR_def)
  note Y = days_before_year_bounds [OF v(1,2)]
  note M = days_before_month_bounds [OF v(3,4,5,6)]
  show "1 \<le> toordinal dt"
    using Y(1) M(1) v(5) by (simp add: toordinal_def ymd2ord_def)
  show "toordinal dt \<le> MAXORDINAL + 7"
    using Y(2) M(2) by (simp add: toordinal_def ymd2ord_def MAXORDINAL_def)
qed

lemma sub_days_week:
  assumes "valid_date week" "7 < toordinal week"
  shows "sub_days week 7 = Inr (fromordinal (toordinal week - 7))"
    and "valid_date (fromordinal (toordinal week - 7))"
    and "toordinal (fromordinal (toordinal week - 7)) = toordinal week - 7"
proof -
  have r: "1 \<le> toordinal week - 7" "toordinal week - 7 \<le> MAXORDINAL"
    using assms(2) toordinal_bounds(2) [OF assms(1)] by simp_all
  show "sub_days week 7 = Inr (fromordinal (toordinal week - 7))"
    using r by (simp add: sub_days_def Let_def)
  show "valid_date (fromordinal (toordinal week - 7))"
    using r by (rule valid_date_fromordinal)
  show "toordinal (fromordinal (toordinal week - 7)) = toordinal week - 7"
    using r(1) by (rule toordinal_fromordinal)
qed

lemma sub_days_overflow:
  assumes "toordinal week \<le> 7"
  shows "sub_days week 7 = Inl OverflowError"
  using assms by (simp add: sub_days_def Let_def)

lemma weeks_before_step:
  assumes "7 < toordinal week"
  shows "weeks_before (fromordinal (toordinal week - 7)) k = weeks_before week (Suc k)"
proof -
  have "1 \<le> toordinal week - 7" using assms by simp
  then have t: "toordinal (fromordinal (toordinal week - 7)) = toordinal week - 7"
    by (rule toordinal_fromordinal)
  have e: "toordinal week - 7 - 7 * int k = toordinal week - 7 * int (Suc k)" by simp
  show ?thesis
  proof (cases "k = 0")
    case True
    then show ?thesis by (simp add: weeks_before_def)
  next
    case False
    then have "weeks_before (fromordinal (toordinal week - 7)) k
                 = fromordinal (toordinal week - 7 - 7 * int k)"
      by (simp add: weeks_before_def t)
    also have "\<dots> = fromordinal (toordinal week - 7 * int (Suc k))"
      by (simp only: e)
    also have "\<dots> = weeks_before week (Suc k)"
      by (simp add: weeks_before_def)
    finally show ?thesis .
  qed
qed

lemma generate_dates_loop_returns:
  assumes "valid_date week"
      and "nat (wks - i) = n"
      and "7 * int n < toordinal week"
  shows "generate_dates_loop week i wks alldates
           = Inr (alldates @ map (\<lambda>k. strftime (weeks_before week k)) [0..<n])"
  using assms
proof (induction n arbitrary: week i alldates)
  case 0
  then have "\<not> i < wks" by simp
  then show ?case by simp
next
  case (Suc n)
  then have lt: "i < wks" by linarith
  have big: "7 < toordinal week" using Suc.prems(3) by simp
  note S = sub_days_week [OF Suc.prems(1) big]
  have "generate_dates_loop week i wks alldates
          = generate_dates_loop (fromordinal (toordinal week - 7)) (i + 1) wks
              (alldates @ [strftime week])"
    using lt S(1) by simp
  also have "\<dots> = Inr ((alldates @ [strftime week])
                @ map (\<lambda>k. strftime (weeks_before (fromordinal (toordinal week - 7)) k)) [0..<n])"
  proof (rule Suc.IH [OF S(2)])
    show "nat (wks - (i + 1)) = n" using Suc.prems(2) by linarith
    show "7 * int n < toordinal (fromordinal (toordinal week - 7))"
      using Suc.prems(3) by (simp add: S(3))
  qed
  also have "(alldates @ [strftime week])
                @ map (\<lambda>k. strftime (weeks_before (fromordinal (toordinal week - 7)) k)) [0..<n]
             = alldates @ map (\<lambda>k. strftime (weeks_before week k)) [0..<Suc n]"
  proof -
    have "map (\<lambda>k. strftime (weeks_before week k)) [0..<Suc n]
            = strftime (weeks_before week 0)
                # map (\<lambda>k. strftime (weeks_before week (Suc k))) [0..<n]"
      by (simp only: upt_conv_Cons [of 0 "Suc n"] map_Suc_upt [symmetric] list.map map_map o_def)
    then show ?thesis
      by (simp add: weeks_before_step [OF big]) (simp add: weeks_before_def)
  qed
  finally show ?case .
qed

lemma generate_dates_loop_overflow:
  assumes "valid_date week"
      and "nat (wks - i) = n"
      and "0 < n"
      and "toordinal week \<le> 7 * int n"
  shows "generate_dates_loop week i wks alldates = Inl OverflowError"
  using assms
proof (induction n arbitrary: week i alldates)
  case 0
  then show ?case by simp
next
  case (Suc n)
  then have lt: "i < wks" by linarith
  show ?case
  proof (cases "toordinal week \<le> 7")
    case True
    then show ?thesis using lt sub_days_overflow by simp
  next
    case False
    then have big: "7 < toordinal week" by simp
    note S = sub_days_week [OF Suc.prems(1) big]
    have n: "0 < n" using big Suc.prems(4) by (cases n) simp_all
    have "generate_dates_loop week i wks alldates
            = generate_dates_loop (fromordinal (toordinal week - 7)) (i + 1) wks
                (alldates @ [strftime week])"
      using lt S(1) by simp
    also have "\<dots> = Inl OverflowError"
    proof (rule Suc.IH [OF S(2) _ n])
      show "nat (wks - (i + 1)) = n" using Suc.prems(2) by linarith
      show "toordinal (fromordinal (toordinal week - 7)) \<le> 7 * int n"
        using Suc.prems(4) by (simp add: S(3))
    qed
    finally show ?thesis .
  qed
qed

lemma weeks_before_props:
  assumes "valid_date week" "7 * int k < toordinal week"
  shows "valid_date (weeks_before week k)"
    and "toordinal (weeks_before week k) = toordinal week - 7 * int k"
proof -
  show "valid_date (weeks_before week k)"
  proof (cases "k = 0")
    case True
    then show ?thesis using assms(1) by (simp add: weeks_before_def)
  next
    case False
    then have "1 \<le> toordinal week - 7 * int k" "toordinal week - 7 * int k \<le> MAXORDINAL"
      using assms(2) toordinal_bounds(2) [OF assms(1)] by simp_all
    then have "valid_date (fromordinal (toordinal week - 7 * int k))"
      by (rule valid_date_fromordinal)
    then show ?thesis using False by (simp add: weeks_before_def)
  qed
  show "toordinal (weeks_before week k) = toordinal week - 7 * int k"
  proof (cases "k = 0")
    case True
    then show ?thesis by (simp add: weeks_before_def)
  next
    case False
    have "1 \<le> toordinal week - 7 * int k" using assms(2) by simp
    then have "toordinal (fromordinal (toordinal week - 7 * int k)) = toordinal week - 7 * int k"
      by (rule toordinal_fromordinal)
    then show ?thesis using False by (simp add: weeks_before_def)
  qed
qed

lemma generate_dates_result:
  fixes wks :: int
  assumes "strptime first_week = Inr start"
  shows "generate_dates first_week wks =
           (if wks \<le> 0 then Inr []
            else if 7 * wks < toordinal start
            then Inr (map (\<lambda>k. strftime (weeks_before start k)) [0..<nat wks])
            else Inl OverflowError)"
proof -
  have v: "valid_date start" using assms by (rule strptime_valid)
  have g: "generate_dates first_week wks = generate_dates_loop start 0 wks []"
    using assms by (simp add: generate_dates_def)
  show ?thesis
  proof (cases "wks \<le> 0")
    case True
    then show ?thesis using g by simp
  next
    case False
    then have pos: "0 < nat wks" by simp
    show ?thesis
    proof (cases "7 * wks < toordinal start")
      case True
      then have "7 * int (nat wks) < toordinal start" using False by simp
      with generate_dates_loop_returns [OF v, of wks 0 "nat wks" "[]"]
      show ?thesis using g False True by simp
    next
      case big: False
      then have "toordinal start \<le> 7 * int (nat wks)" using False by simp
      with generate_dates_loop_overflow [OF v, of wks 0 "nat wks" "[]"] pos
      show ?thesis using g False big by simp
    qed
  qed
qed

lemma py_round_div_7:
  "py_round_div x 7 = (x + 3) div 7" "\<bar>7 * py_round_div x 7 - x\<bar> \<le> 3"
proof -
  define q where "q = x div 7"
  define r where "r = x mod 7"
  have x: "x = 7 * q + r" by (simp add: q_def r_def)
  have r: "0 \<le> r" "r < 7" by (simp_all add: r_def)
  have h: "(7 * k + t) div 7 = k" if "0 \<le> t" "t < 7" for k t :: int
    using that by (simp add: div_pos_pos_trivial)
  have p: "py_round_div x 7 = (if r \<le> 3 then q else q + 1)"
    using r by (auto simp add: py_round_div_def Let_def q_def r_def)
  have d: "(x + 3) div 7 = (if r \<le> 3 then q else q + 1)"
  proof (cases "r \<le> 3")
    case True
    have "x + 3 = 7 * q + (r + 3)" using x by simp
    then have "(x + 3) div 7 = q" using h [of "r + 3" q] True r by simp
    then show ?thesis using True by simp
  next
    case False
    have "x + 3 = 7 * (q + 1) + (r - 4)" using x by simp
    then have "(x + 3) div 7 = q + 1" using h [of "r - 4" "q + 1"] False r by simp
    then show ?thesis using False by simp
  qed
  show "py_round_div x 7 = (x + 3) div 7" using p d by simp
  show "\<bar>7 * py_round_div x 7 - x\<bar> \<le> 3" using p x r by (auto split: if_splits)
qed

section \<open>The date list of scrape\_billboard\<close>

lemma scrape_billboard_no_dates:
  assumes "date_list_of first_week last_week = Inr []"
  shows "scrape_billboard requests_get lxml first_week last_week url net = (Inr [], net)"
  using assms by (simp add: scrape_billboard_def)

lemma scrape_billboard_date_error:
  assumes "date_list_of first_week last_week = Inl e"
  shows "scrape_billboard requests_get lxml first_week last_week url net = (Inl e, net)"
  using assms by (simp add: scrape_billboard_def)

lemma date_list_of_parsed:
  assumes "strptime first_week = Inr a" "strptime last_week = Inr b"
  shows "date_list_of first_week last_week = generate_dates first_week (n_weeks_of a b)"
  using assms by (simp add: date_list_of_def)

lemma date_list_of_malformed:
  assumes "isl (strptime first_week) \<or> isl (strptime last_week)"
  shows "date_list_of first_week last_week = Inl ValueError"
proof (cases "strptime first_week")
  case (Inl e)
  then have "e = ValueError" by (rule strptime_error)
  then show ?thesis using Inl by (simp add: date_list_of_def)
next
  case (Inr a)
  with assms obtain e where e: "strptime last_week = Inl e" by (auto simp add: isl_def)
  then have "e = ValueError" by (rule strptime_error)
  then show ?thesis using Inr e by (simp add: date_list_of_def)
qed

lemma n_weeks_of_nonpositive:
  assumes "toordinal a \<le> toordinal b"
  shows "n_weeks_of a b \<le> 0"
proof -
  have "days_between a b \<le> 0" using assms by (simp add: days_between_def)
  then show ?thesis
    using py_round_div_7(2) [of "days_between a b"] by (simp add: n_weeks_of_def)
qed

section \<open>Pages\<close>

lemma last_dropWhile_keep:
  "dropWhile P xs \<noteq> [] \<Longrightarrow> last (dropWhile P xs) = last xs"
  by (induction xs) (auto split: if_splits)

lemma strip_trimmed:
  "strip s = [] \<or> (\<not> isspace (hd (strip s)) \<and> \<not> isspace (last (strip s)))"
proof (cases "strip s = []")
  case True
  then show ?thesis by simp
next
  case False
  define t where "t = dropWhile isspace s"
  define u where "u = dropWhile isspace (rev t)"
  have s: "strip s = rev u" by (simp add: strip_def t_def u_def)
  with False have u: "u \<noteq> []" by simp
  then have t: "t \<noteq> []" by (auto simp add: u_def)
  have "\<not> isspace (hd u)" using u unfolding u_def by (rule hd_dropWhile)
  moreover have "last u = last (rev t)" using u unfolding u_def by (rule last_dropWhile_keep)
  then have "last u = hd t" using t by (simp add: last_rev)
  moreover have "\<not> isspace (hd t)" using t unfolding t_def by (rule hd_dropWhile)
  ultimately show ?thesis using u by (simp add: s hd_rev last_rev)
qed

section \<open>Frames and groups\<close>





























section \<open>The week identifiers of a scrape\<close>

text \<open>The week identifiers that \<^verbatim>\<open>scrape_billboard\<close> returns are the last ten characters
  of the base URL followed by a printed date; when the base URL holds no comma, neither
  do they.\<close>

lemma last10_subset: "set (last10 s) \<subseteq> set s"
  unfolding last10_def by (rule set_drop_subset)

lemma scrape_week_week_ids:
  assumes "scrape_week requests_get lxml url net = (Inr rec, net')"
  shows "set (week_ids [rec]) \<subseteq> {last10 url}"
  using assms
  by (auto simp add: scrape_week_def week_ids_def Let_def split: sum.splits)

lemma week_ids_Cons: "week_ids (rec # recs) = week_ids [rec] @ week_ids recs"
  by (simp add: week_ids_def)

lemma imap_week_ids:
  assumes "imap (scrape_week requests_get lxml) urls net = (Inr recs, net')"
  shows "set (week_ids recs) \<subseteq> last10 ` set urls"
  using assms
proof (induction urls arbitrary: net recs)
  case Nil
  then show ?case by (simp add: week_ids_def)
next
  case (Cons u us)
  from Cons.prems obtain r rs net1 where
    r: "scrape_week requests_get lxml u net = (Inr r, net1)"
    and rs: "imap (scrape_week requests_get lxml) us net1 = (Inr rs, net')"
    and recs: "recs = r # rs"
    by (auto split: prod.splits sum.splits)
  have "set (week_ids [r]) \<subseteq> {last10 u}" using r by (rule scrape_week_week_ids)
  moreover have "set (week_ids rs) \<subseteq> last10 ` set us" using rs by (rule Cons.IH)
  ultimately show ?case
    unfolding recs week_ids_Cons [of r rs] by auto
qed

lemma generate_dates_entries:
  fixes wks :: int
  assumes "generate_dates first_week wks = Inr xs"
  shows "\<forall>x \<in> set xs. \<exists>dt. valid_date dt \<and> x = strftime dt"
proof (cases "strptime first_week")
  case (Inl e)
  then show ?thesis using assms by (simp add: generate_dates_def)
next
  case (Inr start)
  have v: "valid_date start" using Inr by (rule strptime_valid)
  show ?thesis
  proof (cases "0 < wks \<and> 7 * wks < toordinal start")
    case False
    then show ?thesis
      using assms unfolding generate_dates_result [OF Inr] by (auto split: if_splits)
  next
    case True
    then have xs: "xs = map (\<lambda>k. strftime (weeks_before start k)) [0..<nat wks]"
      using assms unfolding generate_dates_result [OF Inr] by (auto split: if_splits)
    show ?thesis
    proof
      fix x
      assume "x \<in> set xs"
      then obtain k where k: "k < nat wks" and x: "x = strftime (weeks_before start k)"
        unfolding xs by auto
      have "7 * int k < toordinal start" using k True by linarith
      then have "valid_date (weeks_before start k)" by (rule weeks_before_props(1) [OF v])
      then show "\<exists>dt. valid_date dt \<and> x = strftime dt" using x by blast
    qed
  qed
qed

lemma scrape_billboard_week_ids:
  assumes "scrape_billboard requests_get lxml first_week last_week url net = (Inr chart_data, net')"
      and "CHR '','' \<notin> set url"
  shows "\<forall>w \<in> set (week_ids chart_data). CHR '','' \<notin> set w"
proof (cases "date_list_of first_week last_week")
  case (Inl e)
  then show ?thesis using assms(1) by (simp add: scrape_billboard_def)
next
  case (Inr date_list)
  then have run: "imap (scrape_week requests_get lxml) (map (\<lambda>week. url @ week) date_list) net
                    = (Inr chart_data, net')"
    using assms(1) by (simp add: scrape_billboard_def)
  have dates: "\<forall>x \<in> set date_list. \<exists>dt. valid_date dt \<and> x = strftime dt"
    using Inr generate_dates_entries
    by (auto simp add: date_list_of_def Let_def split: sum.splits)
  show ?thesis
  proof
    fix w
    assume "w \<in> set (week_ids chart_data)"
    then have "w \<in> last10 ` set (map (\<lambda>week. url @ week) date_list)"
      using imap_week_ids [OF run] by blast
    then obtain x where x: "x \<in> set date_list" and w: "w = last10 (url @ x)" by auto
    from dates x obtain dt where dt: "valid_date dt" "x = strftime dt" by blast
    have "1 \<le> year dt"
      using dt(1) by (simp add: valid_date_def check_date_fields_def MINYEAR_def)
    then have "CHR '','' \<notin> set (url @ x)"
      using assms(2) dt(2) strftime_no_comma by simp
    then show "CHR '','' \<notin> set w"
      using last10_subset [of "url @ x"] w by blast
  qed
qed

section \<open>Claims\<close>

text \<open>
  C6. When the page was fetched and none of the three selectors matches an element,
  \<^verbatim>\<open>scrape_week\<close> returns the record with four empty columns; nothing is raised.
\<close>

theorem scrape_week_no_items:
  assumes "requests_get url = Inr page"
      and "find_all (lxml page) ''chart-list-item__title-text'' = []"
      and "find_all (lxml page) ''chart-list-item__artist'' = []"
      and "find_all (lxml page) ''chart-list-item__rank'' = []"
  shows "scrape_week requests_get lxml url net = (Inr ([], [], [], []), net @ [url])"
  using assms by (simp add: scrape_week_def)

theorem scrape_week_no_items_witness:
  "scrape_week example_get soup_no_items ''https://www.billboard.com/charts/country-songs/1959-07-23'' []
     = (Inr ([], [], [], []), [''https://www.billboard.com/charts/country-songs/1959-07-23''])"
  using scrape_week_no_items [of example_get
      "''https://www.billboard.com/charts/country-songs/1959-07-23''" "''<html></html>''"
      soup_no_items "[]"]
  by (simp add: example_get_def soup_no_items_def find_all_def)

text \<open>
  C4 fails as stated: a page with one title element and no artist or rank element
  gives columns of lengths 1, 0, 0, 1.
\<close>

theorem scrape_week_lengths_counterexample:
  "scrape_week example_get soup_title_only ''https://www.billboard.com/charts/country-songs/2019-05-12'' []
     = (Inr ([''Song X''], [], [], [''2019-05-12'']),
        [''https://www.billboard.com/charts/country-songs/2019-05-12''])
   \<and> length [''Song X''] \<noteq> length ([] :: string list)"
  by (simp add: scrape_week_def example_get_def soup_title_only_def find_all_def strip_def
        isspace_def last10_def)

text \<open>
  C4, amended. For every fetched page the record returned by \<^verbatim>\<open>scrape_week\<close> has as
  many week identifiers as titles, namely the number of elements of class
  \<^verbatim>\<open>chart-list-item__title-text\<close>; the artists and the ranks are as many as the elements
  of their own class.
\<close>

theorem scrape_week_column_lengths:
  assumes "requests_get url = Inr page"
  shows "\<exists>songs artists ranks weeks.
           fst (scrape_week requests_get lxml url net) = Inr (songs, artists, ranks, weeks)
           \<and> length weeks = length songs
           \<and> length songs = length (find_all (lxml page) ''chart-list-item__title-text'')
           \<and> length artists = length (find_all (lxml page) ''chart-list-item__artist'')
           \<and> length ranks = length (find_all (lxml page) ''chart-list-item__rank'')"
  using assms by (simp add: scrape_week_def Let_def)

theorem scrape_week_column_lengths_witness:
  "\<exists>songs artists ranks weeks.
     fst (scrape_week example_get soup_title_only ''https://www.billboard.com/charts/country-songs/2019-05-12'' [])
        = Inr (songs, artists, ranks, weeks)
     \<and> length weeks = length songs
     \<and> length songs = length (find_all (soup_title_only ''<html></html>'') ''chart-list-item__title-text'')
     \<and> length artists = length (find_all (soup_title_only ''<html></html>'') ''chart-list-item__artist'')
     \<and> length ranks = length (find_all (soup_title_only ''<html></html>'') ''chart-list-item__rank'')"
  by (rule scrape_week_column_lengths) (simp add: example_get_def)

text \<open>
  C5 fails as stated: a rank element with the text \<^verbatim>\<open>N/A\<close> yields the rank entry
  \<^verbatim>\<open>N/A\<close>, which is not the text of a positive integer.
\<close>

theorem scrape_week_rank_counterexample:
  "fst (scrape_week example_get soup_rank_text ''https://www.billboard.com/charts/country-songs/2019-05-12'' [])
     = Inr ([], [], [''N/A''], [])
   \<and> \<not> positive_integer_text ''N/A''"
  by (simp add: scrape_week_def example_get_def soup_rank_text_def find_all_def strip_def
        isspace_def last10_def positive_integer_text_def isdigit_def)

text \<open>
  C5, amended. Each rank entry of the record is the text of an element of class
  \<^verbatim>\<open>chart-list-item__rank\<close> with the whitespace at both ends removed: raw text, which
  is neither checked nor converted to a number.
\<close>

theorem scrape_week_ranks_raw_text:
  assumes "requests_get url = Inr page"
  shows "\<exists>songs artists ranks weeks.
           fst (scrape_week requests_get lxml url net) = Inr (songs, artists, ranks, weeks)
           \<and> ranks = map (\<lambda>rank. strip (get_text rank)) (find_all (lxml page) ''chart-list-item__rank'')
           \<and> (\<forall>r \<in> set ranks. r = [] \<or> (\<not> isspace (hd r) \<and> \<not> isspace (last r)))"
  using assms strip_trimmed by (auto simp add: scrape_week_def Let_def)

theorem scrape_week_ranks_raw_text_witness:
  "\<exists>songs artists ranks weeks.
     fst (scrape_week example_get soup_rank_text ''https://www.billboard.com/charts/country-songs/2019-05-12'' [])
        = Inr (songs, artists, ranks, weeks)
     \<and> ranks = map (\<lambda>rank. strip (get_text rank))
                 (find_all (soup_rank_text ''<html></html>'') ''chart-list-item__rank'')
     \<and> (\<forall>r \<in> set ranks. r = [] \<or> (\<not> isspace (hd r) \<and> \<not> isspace (last r)))"
  by (rule scrape_week_ranks_raw_text) (simp add: example_get_def)

text \<open>
  C3 fails as stated: for the valid start date 0001-01-05 and one week, the loop
  appends the date and then steps back seven days, which leaves the range of
  \<^verbatim>\<open>datetime\<close>; OverflowError is raised and no list is returned.
\<close>

theorem generate_dates_overflow_counterexample:
  "strptime ''0001-01-05'' = Inr \<lparr>year = 1, month = 1, day = 5\<rparr>
   \<and> generate_dates ''0001-01-05'' 1 = Inl OverflowError"
  by code_simp

text \<open>
  C3, amended. For a valid start date string and a positive week count, as long as
  seven times the count is less than the day number of the start date,
  \<^verbatim>\<open>generate_dates\<close> returns one entry per week: the entries are the \<^verbatim>\<open>%Y-%m-%d\<close> prints of
  dates of which the first is the start date and each further one is exactly seven days
  before the previous one. An entry of the year 1000 or later reads back as its date
  with \<^verbatim>\<open>strptime\<close>; an earlier year is printed with fewer than four digits.
  Otherwise \<^verbatim>\<open>generate_dates\<close> raises OverflowError.
\<close>

theorem generate_dates_walks_back:
  fixes wks :: int
  assumes "strptime first_week = Inr start" and "0 < wks"
  shows "if 7 * wks < toordinal start
         then (\<exists>ds. generate_dates first_week wks = Inr (map strftime ds)
                 \<and> int (length ds) = wks
                 \<and> ds ! 0 = start
                 \<and> (\<forall>i. i < length ds \<longrightarrow> valid_date (ds ! i))
                 \<and> (\<forall>i. Suc i < length ds \<longrightarrow>
                       toordinal (ds ! Suc i) = toordinal (ds ! i) - 7)
                 \<and> (\<forall>i. i < length ds \<and> 1000 \<le> year (ds ! i) \<longrightarrow>
                       strptime (map strftime ds ! i) = Inr (ds ! i)))
         else generate_dates first_week wks = Inl OverflowError"
proof (cases "7 * wks < toordinal start")
  case False
  then show ?thesis
    using generate_dates_result [OF assms(1), of wks] assms(2) by simp
next
  case True
  have v: "valid_date start" using assms(1) by (rule strptime_valid)
  define ds where "ds = map (weeks_before start) [0..<nat wks]"
  have g: "generate_dates first_week wks = Inr (map strftime ds)"
    using generate_dates_result [OF assms(1), of wks] assms(2) True
    by (simp add: ds_def o_def)
  have len: "length ds = nat wks" by (simp add: ds_def)
  have nth: "ds ! i = weeks_before start i" if "i < nat wks" for i
    using that by (simp add: ds_def)
  have valid: "valid_date (ds ! i)"
    and ord: "toordinal (ds ! i) = toordinal start - 7 * int i"
    if "i < nat wks" for i
  proof -
    have small: "7 * int i < toordinal start" using that True by linarith
    show "valid_date (ds ! i)"
      using weeks_before_props(1) [OF v small] nth [OF that] by simp
    show "toordinal (ds ! i) = toordinal start - 7 * int i"
      using weeks_before_props(2) [OF v small] nth [OF that] by simp
  qed
  have first: "ds ! 0 = start"
    using nth [of 0] assms(2) by (simp add: weeks_before_def)
  have step: "toordinal (ds ! Suc i) = toordinal (ds ! i) - 7" if "Suc i < length ds" for i
  proof -
    have i: "i < nat wks" "Suc i < nat wks" using that len by simp_all
    show ?thesis using ord [OF i(1)] ord [OF i(2)] by simp
  qed
  have reads: "strptime (map strftime ds ! i) = Inr (ds ! i)"
    if "i < length ds \<and> 1000 \<le> year (ds ! i)" for i
  proof -
    have i: "i < nat wks" using that len by simp
    have "strptime (strftime (ds ! i)) = Inr (ds ! i)"
      using valid [OF i] that by (intro strptime_strftime) simp_all
    then show ?thesis using that by simp
  qed
  have "\<exists>ds. generate_dates first_week wks = Inr (map strftime ds)
                 \<and> int (length ds) = wks
                 \<and> ds ! 0 = start
                 \<and> (\<forall>i. i < length ds \<longrightarrow> valid_date (ds ! i))
                 \<and> (\<forall>i. Suc i < length ds \<longrightarrow>
                       toordinal (ds ! Suc i) = toordinal (ds ! i) - 7)
                 \<and> (\<forall>i. i < length ds \<and> 1000 \<le> year (ds ! i) \<longrightarrow>
                       strptime (map strftime ds ! i) = Inr (ds ! i))"
  proof (intro exI [of _ ds] conjI allI impI)
    show "generate_dates first_week wks = Inr (map strftime ds)" by (rule g)
    show "int (length ds) = wks" using len assms(2) by simp
    show "ds ! 0 = start" by (rule first)
    show "valid_date (ds ! i)" if "i < length ds" for i using valid [of i] that len by simp
    show "toordinal (ds ! Suc i) = toordinal (ds ! i) - 7" if "Suc i < length ds" for i
      using that by (rule step)
    show "strptime (map strftime ds ! i) = Inr (ds ! i)"
      if "i < length ds \<and> 1000 \<le> year (ds ! i)" for i
      using that by (rule reads)
  qed
  then show ?thesis using True by (simp only: if_True)
qed

theorem generate_dates_walks_back_witness:
  "strptime ''2019-05-12'' = Inr \<lparr>year = 2019, month = 5, day = 12\<rparr> \<and> (0::int) < 3
   \<and> 7 * 3 < toordinal \<lparr>year = 2019, month = 5, day = 12\<rparr>
   \<and> (\<exists>ds. generate_dates ''2019-05-12'' 3 = Inr (map strftime ds)
         \<and> int (length ds) = 3
         \<and> ds ! 0 = \<lparr>year = 2019, month = 5, day = 12\<rparr>
         \<and> (\<forall>i. i < length ds \<longrightarrow> valid_date (ds ! i))
         \<and> (\<forall>i. Suc i < length ds \<longrightarrow>
               toordinal (ds ! Suc i) = toordinal (ds ! i) - 7)
         \<and> (\<forall>i. i < length ds \<and> 1000 \<le> year (ds ! i) \<longrightarrow>
               strptime (map strftime ds ! i) = Inr (ds ! i)))
   \<and> generate_dates ''2019-05-12'' 3 = Inr [''2019-05-12'', ''2019-05-05'', ''2019-04-28'']"
proof -
  have p: "strptime ''2019-05-12'' = Inr \<lparr>year = 2019, month = 5, day = 12\<rparr>"
    by code_simp
  have z: "(0::int) < 3" by simp
  have t: "7 * 3 < toordinal \<lparr>year = 2019, month = 5, day = 12\<rparr>"
    by code_simp
  have e: "generate_dates ''2019-05-12'' 3 = Inr [''2019-05-12'', ''2019-05-05'', ''2019-04-28'']"
    by code_simp
  have w: "\<exists>ds. generate_dates ''2019-05-12'' 3 = Inr (map strftime ds)
         \<and> int (length ds) = 3
         \<and> ds ! 0 = \<lparr>year = 2019, month = 5, day = 12\<rparr>
         \<and> (\<forall>i. i < length ds \<longrightarrow> valid_date (ds ! i))
         \<and> (\<forall>i. Suc i < length ds \<longrightarrow>
               toordinal (ds ! Suc i) = toordinal (ds ! i) - 7)
         \<and> (\<forall>i. i < length ds \<and> 1000 \<le> year (ds ! i) \<longrightarrow>
               strptime (map strftime ds ! i) = Inr (ds ! i))"
    using generate_dates_walks_back [OF p z] t by (simp only: if_True)
  show ?thesis
    by (intro conjI p z t w e)
qed

text \<open>
  C10. With a week count that is zero or negative \<^verbatim>\<open>generate_dates\<close> returns the empty
  list. A first week before the last week gives such a count, and with such a count
  \<^verbatim>\<open>scrape_billboard\<close> requests no URL and returns the empty list; nothing is raised.
\<close>

theorem nonpositive_weeks_empty:
  fixes wks :: int
  assumes "strptime first_week = Inr a"
  shows "(wks \<le> 0 \<longrightarrow> generate_dates first_week wks = Inr [])
       \<and> (\<forall>b. strptime last_week = Inr b \<longrightarrow>
             (toordinal a < toordinal b \<longrightarrow> n_weeks_of a b \<le> 0)
           \<and> (n_weeks_of a b \<le> 0 \<longrightarrow>
                scrape_billboard requests_get lxml first_week last_week url net = (Inr [], net)))"
proof (intro conjI allI impI)
  assume "wks \<le> 0"
  then show "generate_dates first_week wks = Inr []"
    using generate_dates_result [OF assms, of wks] by simp
next
  fix b
  assume "toordinal a < toordinal b"
  then show "n_weeks_of a b \<le> 0" using n_weeks_of_nonpositive [of a b] by simp
next
  fix b
  assume b: "strptime last_week = Inr b" and n: "n_weeks_of a b \<le> 0"
  have "date_list_of first_week last_week = Inr []"
    using date_list_of_parsed [OF assms b] generate_dates_result [OF assms, of "n_weeks_of a b"] n
    by simp
  then show "scrape_billboard requests_get lxml first_week last_week url net = (Inr [], net)"
    by (rule scrape_billboard_no_dates)
qed


theorem nonpositive_weeks_empty_witness:
  "strptime ''2019-04-28'' = Inr \<lparr>year = 2019, month = 4, day = 28\<rparr>
   \<and> strptime ''2019-05-12'' = Inr \<lparr>year = 2019, month = 5, day = 12\<rparr>
   \<and> (-2::int) \<le> 0
   \<and> toordinal \<lparr>year = 2019, month = 4, day = 28\<rparr> < toordinal \<lparr>year = 2019, month = 5, day = 12\<rparr>
   \<and> n_weeks_of \<lparr>year = 2019, month = 4, day = 28\<rparr> \<lparr>year = 2019, month = 5, day = 12\<rparr> = -2
   \<and> generate_dates ''2019-04-28'' (-2) = Inr []
   \<and> scrape_billboard example_get soup_no_items ''2019-04-28'' ''2019-05-12''
         ''https://www.billboard.com/charts/country-songs/'' [] = (Inr [], [])"
proof -
  have a: "strptime ''2019-04-28'' = Inr \<lparr>year = 2019, month = 4, day = 28\<rparr>" by code_simp
  have b: "strptime ''2019-05-12'' = Inr \<lparr>year = 2019, month = 5, day = 12\<rparr>" by code_simp
  have t: "toordinal \<lparr>year = 2019, month = 4, day = 28\<rparr> < toordinal \<lparr>year = 2019, month = 5, day = 12\<rparr>"
    by code_simp
  have n: "n_weeks_of \<lparr>year = 2019, month = 4, day = 28\<rparr> \<lparr>year = 2019, month = 5, day = 12\<rparr> = -2"
    by code_simp
  show ?thesis
    using nonpositive_weeks_empty [OF a, of "-2" "''2019-05-12''" example_get soup_no_items
        "''https://www.billboard.com/charts/country-songs/''" "[]"] a b t n
    by simp
qed

text \<open>
  C1 fails as stated: with the start date 2019-04-28 before the end date 2019-05-12,
  \<^verbatim>\<open>scrape_billboard\<close> returns the empty list; no error is raised.
\<close>

theorem inverted_range_counterexample:
  "strptime ''2019-04-28'' = Inr \<lparr>year = 2019, month = 4, day = 28\<rparr>
   \<and> strptime ''2019-05-12'' = Inr \<lparr>year = 2019, month = 5, day = 12\<rparr>
   \<and> toordinal \<lparr>year = 2019, month = 4, day = 28\<rparr> < toordinal \<lparr>year = 2019, month = 5, day = 12\<rparr>
   \<and> scrape_billboard example_get soup_no_items ''2019-04-28'' ''2019-05-12''
         ''https://www.billboard.com/charts/country-songs/'' [] = (Inr [], [])"
  by code_simp

text \<open>
  C1, amended. A date string that \<^verbatim>\<open>strptime\<close> rejects makes \<^verbatim>\<open>generate_dates\<close> and
  \<^verbatim>\<open>scrape_billboard\<close> raise ValueError, and \<^verbatim>\<open>scrape_billboard\<close> has requested no URL by
  then. Two well-formed dates of which the start is not after the end are no error:
  \<^verbatim>\<open>scrape_billboard\<close> returns the empty list, again without a request.
\<close>

theorem malformed_dates_raise_before_fetch:
  fixes wks :: int
  shows "(isl (strptime first_week) \<longrightarrow> generate_dates first_week wks = Inl ValueError)
       \<and> (isl (strptime first_week) \<or> isl (strptime last_week) \<longrightarrow>
            scrape_billboard requests_get lxml first_week last_week url net = (Inl ValueError, net))
       \<and> (\<forall>a b. strptime first_week = Inr a \<and> strptime last_week = Inr b
                  \<and> toordinal a \<le> toordinal b \<longrightarrow>
            scrape_billboard requests_get lxml first_week last_week url net = (Inr [], net))"
proof (intro conjI allI impI)
  assume "isl (strptime first_week)"
  then obtain e where e: "strptime first_week = Inl e" by (auto simp add: isl_def)
  then have "e = ValueError" by (rule strptime_error)
  then show "generate_dates first_week wks = Inl ValueError"
    using e by (simp add: generate_dates_def)
next
  assume "isl (strptime first_week) \<or> isl (strptime last_week)"
  then have "date_list_of first_week last_week = Inl ValueError"
    by (rule date_list_of_malformed)
  then show "scrape_billboard requests_get lxml first_week last_week url net = (Inl ValueError, net)"
    by (rule scrape_billboard_date_error)
next
  fix a b
  assume h: "strptime first_week = Inr a \<and> strptime last_week = Inr b \<and> toordinal a \<le> toordinal b"
  then have n: "n_weeks_of a b \<le> 0" using n_weeks_of_nonpositive by simp
  have "date_list_of first_week last_week = Inr []"
    using h date_list_of_parsed [of first_week a last_week b]
      generate_dates_result [of first_week a "n_weeks_of a b"] n
    by simp
  then show "scrape_billboard requests_get lxml first_week last_week url net = (Inr [], net)"
    by (rule scrape_billboard_no_dates)
qed

theorem malformed_dates_raise_before_fetch_witness:
  "isl (strptime ''2019-13-01'')
   \<and> generate_dates ''2019-13-01'' 4 = Inl ValueError
   \<and> scrape_billboard example_get soup_no_items ''2019-13-01'' ''2019-05-12''
        ''https://www.billboard.com/charts/country-songs/'' [] = (Inl ValueError, [])
   \<and> isl (strptime ''12 May 2019'')
   \<and> scrape_billboard example_get soup_no_items ''2019-05-12'' ''12 May 2019''
        ''https://www.billboard.com/charts/country-songs/'' [] = (Inl ValueError, [])
   \<and> strptime ''2019-05-12'' = Inr \<lparr>year = 2019, month = 5, day = 12\<rparr>
   \<and> toordinal \<lparr>year = 2019, month = 5, day = 12\<rparr> \<le> toordinal \<lparr>year = 2019, month = 5, day = 12\<rparr>
   \<and> scrape_billboard example_get soup_no_items ''2019-05-12'' ''2019-05-12''
        ''https://www.billboard.com/charts/country-songs/'' [] = (Inr [], [])"
proof -
  have m1: "isl (strptime ''2019-13-01'')" by code_simp
  have m2: "isl (strptime ''12 May 2019'')" by code_simp
  have p: "strptime ''2019-05-12'' = Inr \<lparr>year = 2019, month = 5, day = 12\<rparr>" by code_simp
  show ?thesis
    using malformed_dates_raise_before_fetch [of "''2019-13-01''" 4 "''2019-05-12''"
        example_get soup_no_items "''https://www.billboard.com/charts/country-songs/''" "[]"]
      malformed_dates_raise_before_fetch [of "''2019-05-12''" 4 "''12 May 2019''"
        example_get soup_no_items "''https://www.billboard.com/charts/country-songs/''" "[]"]
      malformed_dates_raise_before_fetch [of "''2019-05-12''" 4 "''2019-05-12''"
        example_get soup_no_items "''https://www.billboard.com/charts/country-songs/''" "[]"]
      m1 m2 p
    by simp
qed

text \<open>
  C2, amended. For two valid date strings with the start after the end, the number of
  weeks is the integer nearest to days / 7 (it differs from days / 7 by at most 3/7),
  not the ceiling. The date list has exactly that many entries; it is returned
  whenever seven times the number is less than the day number of the start date, which
  holds for every end date from 0001-01-04 on, and OverflowError is raised otherwise.
\<close>

theorem date_list_length:
  assumes "strptime first_week = Inr a" and "strptime last_week = Inr b"
      and "toordinal b < toordinal a"
  shows "\<bar>7 * n_weeks_of a b - days_between a b\<bar> \<le> 3
       \<and> (if 7 * n_weeks_of a b < toordinal a
          then \<exists>xs. date_list_of first_week last_week = Inr xs
                 \<and> int (length xs) = n_weeks_of a b
          else date_list_of first_week last_week = Inl OverflowError)
       \<and> (3 < toordinal b \<longrightarrow> 7 * n_weeks_of a b < toordinal a)"
proof -
  define n where "n = n_weeks_of a b"
  have near: "\<bar>7 * n - days_between a b\<bar> \<le> 3"
    unfolding n_def n_weeks_of_def by (rule py_round_div_7(2))
  have n0: "0 \<le> n"
    using near assms(3) by (simp add: days_between_def; linarith)
  have a1: "1 \<le> toordinal a"
    using toordinal_bounds(1) [OF strptime_valid [OF assms(1)]] .
  have d: "date_list_of first_week last_week = generate_dates first_week n"
    unfolding n_def by (rule date_list_of_parsed [OF assms(1,2)])
  have g: "generate_dates first_week n =
             (if n \<le> 0 then Inr []
              else if 7 * n < toordinal a
              then Inr (map (\<lambda>k. strftime (weeks_before a k)) [0..<nat n])
              else Inl OverflowError)"
    by (rule generate_dates_result [OF assms(1)])
  have res: "if 7 * n < toordinal a
             then \<exists>xs. date_list_of first_week last_week = Inr xs \<and> int (length xs) = n
             else date_list_of first_week last_week = Inl OverflowError"
    using d g n0 a1 by (cases "n \<le> 0") auto
  have ret: "3 < toordinal b \<longrightarrow> 7 * n < toordinal a"
    using near by (simp add: days_between_def; linarith)
  show ?thesis unfolding n_def [symmetric] by (intro conjI near res ret)
qed

theorem date_list_length_witness:
  "strptime ''2019-05-12'' = Inr \<lparr>year = 2019, month = 5, day = 12\<rparr>
   \<and> strptime ''2019-04-28'' = Inr \<lparr>year = 2019, month = 4, day = 28\<rparr>
   \<and> toordinal \<lparr>year = 2019, month = 4, day = 28\<rparr> < toordinal \<lparr>year = 2019, month = 5, day = 12\<rparr>
   \<and> 3 < toordinal \<lparr>year = 2019, month = 4, day = 28\<rparr>
   \<and> n_weeks_of \<lparr>year = 2019, month = 5, day = 12\<rparr> \<lparr>year = 2019, month = 4, day = 28\<rparr> = 2
   \<and> (\<exists>xs. date_list_of ''2019-05-12'' ''2019-04-28'' = Inr xs \<and> int (length xs) = 2)"
proof -
  have a: "strptime ''2019-05-12'' = Inr \<lparr>year = 2019, month = 5, day = 12\<rparr>" by code_simp
  have b: "strptime ''2019-04-28'' = Inr \<lparr>year = 2019, month = 4, day = 28\<rparr>" by code_simp
  have t: "toordinal \<lparr>year = 2019, month = 4, day = 28\<rparr> < toordinal \<lparr>year = 2019, month = 5, day = 12\<rparr>"
    by code_simp
  have t3: "3 < toordinal \<lparr>year = 2019, month = 4, day = 28\<rparr>" by code_simp
  have n: "n_weeks_of \<lparr>year = 2019, month = 5, day = 12\<rparr> \<lparr>year = 2019, month = 4, day = 28\<rparr> = 2"
    by code_simp
  have c: "7 * n_weeks_of \<lparr>year = 2019, month = 5, day = 12\<rparr> \<lparr>year = 2019, month = 4, day = 28\<rparr>
             < toordinal \<lparr>year = 2019, month = 5, day = 12\<rparr>"
    by code_simp
  have "\<exists>xs. date_list_of ''2019-05-12'' ''2019-04-28'' = Inr xs
          \<and> int (length xs)
              = n_weeks_of \<lparr>year = 2019, month = 5, day = 12\<rparr> \<lparr>year = 2019, month = 4, day = 28\<rparr>"
    using date_list_length [OF a b t] c by simp
  then have e: "\<exists>xs. date_list_of ''2019-05-12'' ''2019-04-28'' = Inr xs \<and> int (length xs) = 2"
    by (simp only: n)
  show ?thesis
    by (intro conjI) (rule a b t t3 n e)+
qed

text \<open>
  C2 fails as stated: one day apart, the ceiling is 1 and the list is empty; for the
  dates of the notebook, 2019-05-12 and 1959-07-23, the ceiling is 3121 and the
  notebook scrapes 3120 weeks.
\<close>

theorem ceiling_weeks_counterexample:
  "strptime ''2019-05-12'' = Inr \<lparr>year = 2019, month = 5, day = 12\<rparr>
   \<and> strptime ''2019-05-11'' = Inr \<lparr>year = 2019, month = 5, day = 11\<rparr>
   \<and> days_between \<lparr>year = 2019, month = 5, day = 12\<rparr> \<lparr>year = 2019, month = 5, day = 11\<rparr> = 1
   \<and> ceiling_weeks \<lparr>year = 2019, month = 5, day = 12\<rparr> \<lparr>year = 2019, month = 5, day = 11\<rparr> = 1
   \<and> n_weeks_of \<lparr>year = 2019, month = 5, day = 12\<rparr> \<lparr>year = 2019, month = 5, day = 11\<rparr> = 0
   \<and> date_list_of ''2019-05-12'' ''2019-05-11'' = Inr []
   \<and> strptime ''1959-07-23'' = Inr \<lparr>year = 1959, month = 7, day = 23\<rparr>
   \<and> ceiling_weeks \<lparr>year = 2019, month = 5, day = 12\<rparr> \<lparr>year = 1959, month = 7, day = 23\<rparr> = 3121
   \<and> n_weeks_of \<lparr>year = 2019, month = 5, day = 12\<rparr> \<lparr>year = 1959, month = 7, day = 23\<rparr> = 3120"
  by code_simp

text \<open>
  C7 fails as stated: the week count is the number of pieces between the commas of the
  weeks field, so with the two different week identifiers \<^verbatim>\<open>a,b\<close> and \<^verbatim>\<open>c\<close> the one row has
  the week count 3.
\<close>

theorem same_track_comma_counterexample:
  "aggregate [([''Song X''], [''Artist Y''], [''1''], [''a,b'']),
              ([''Song X''], [''Artist Y''], [''3''], [''c''])]
     = Inr [\<lparr>title = ''Song X'', artist = ''Artist Y'', weeks = ''a,b,c'', week_count = 3\<rparr>]"
  by code_simp



text \<open>
  C8 fails as stated: a track that appears once, in a week whose identifier is \<^verbatim>\<open>a,b\<close>,
  gets the week count 2.
\<close>

theorem week_count_comma_counterexample:
  "aggregate [([''Song X''], [''Artist Y''], [''1''], [''a,b''])]
     = Inr [\<lparr>title = ''Song X'', artist = ''Artist Y'', weeks = ''a,b'', week_count = 2\<rparr>]
   \<and> appearances [([''Song X''], [''Artist Y''], [''1''], [''a,b''])] ''Song X'' ''Artist Y''
       = [''a,b'']"
  by code_simp





end
